theory Spec2Isabelle
  imports Main "HOL-Library.Multiset"
begin

section \<open>Python values used by update\_contributions.py\<close>

text \<open>
  A Python \<open>str\<close> is modelled as an Isabelle \<open>string\<close>, one \<open>char\<close> per code point
  (so \<open>length\<close> is Python's \<open>len\<close>). A value that may be \<open>None\<close> (a JSON null, or the
  result of \<open>dict.get\<close> on a missing key) is a \<open>string option\<close>. Exceptions are values of
  the type \<open>error\<close>; a function that may raise returns \<open>error + 'a\<close>.
\<close>

datatype error =
    ValueError
  | TypeError
  | KeyError
  | IndexError
  | JSONDecodeError
  | ConnectionError
  | HTTPError nat

text \<open>Python truthiness of an optional string: \<open>None\<close> and \<open>""\<close> are falsy.\<close>

fun truthy :: "string option \<Rightarrow> bool" where
  "truthy None = False"
| "truthy (Some s) = (s \<noteq> [])"

text \<open>Python's \<open>a or b\<close>: \<open>a\<close> when it is truthy, otherwise \<open>b\<close>.\<close>

definition py_or :: "string option \<Rightarrow> string option \<Rightarrow> string option" where
  "py_or a b = (if truthy a then a else b)"

text \<open>The same with a string literal on the right: \<open>body or "..."\<close>.\<close>

definition or_default :: "string option \<Rightarrow> string \<Rightarrow> string" where
  "or_default a d = (case a of None \<Rightarrow> d | Some s \<Rightarrow> if s = [] then d else s)"

text \<open>\<open>str(n)\<close> and \<open>f"{n}"\<close> for a non-negative integer: decimal, no padding.\<close>

definition digit_char :: "nat \<Rightarrow> char" where
  "digit_char d = ''0123456789'' ! (d mod 10)"

function str_nat :: "nat \<Rightarrow> string" where
  "str_nat n = (if n < 10 then [digit_char n] else str_nat (n div 10) @ [digit_char (n mod 10)])"
  by pat_completeness auto
termination
  by (relation "measure id") auto

declare str_nat.simps [simp del]

text \<open>\<open>str.split(sep)\<close> with a one-character separator.\<close>

fun split_chr :: "char \<Rightarrow> string \<Rightarrow> string list" where
  "split_chr sep [] = [[]]"
| "split_chr sep (c # cs) =
     (if c = sep then [] # split_chr sep cs
      else (case split_chr sep cs of [] \<Rightarrow> [[c]] | w # ws \<Rightarrow> (c # w) # ws))"

section \<open>datetime.strptime with the format \%Y-\%m-\%dT\%H:\%M:\%SZ\<close>

text \<open>
  CPython's \<open>_strptime\<close> turns the format into the regular expression
  \<^verbatim>\<open>(\d\d\d\d)-(1[0-2]|0[1-9]|[1-9])-(3[0-1]|[1-2]\d|0[1-9]|[1-9]| [1-9])T(2[0-3]|[0-1]\d|\d):([0-5]\d|\d):(6[0-1]|[0-5]\d|\d)Z\<close>,
  compiled case-insensitively, matches it at the start of the string (alternatives tried
  left to right, with backtracking), raises \<open>ValueError\<close> when there is no match or when
  text remains after the match, and then builds the \<open>datetime\<close>, whose constructor raises
  \<open>ValueError\<close> for year 0, for a day the month does not have and for a second above 59.
  Digits are the ASCII digits.
\<close>

record datetime =
  year :: nat
  month :: nat
  day :: nat
  hour :: nat
  minute :: nat
  second :: nat

definition in_range :: "char \<Rightarrow> char \<Rightarrow> char \<Rightarrow> bool" where
  "in_range lo hi c = ((of_char lo :: nat) \<le> of_char c \<and> (of_char c :: nat) \<le> of_char hi)"

text \<open>One alternative of a field: a sequence of character classes, each a range.\<close>

fun match_alt :: "(char \<times> char) list \<Rightarrow> string \<Rightarrow> (string \<times> string) option" where
  "match_alt [] s = Some ([], s)"
| "match_alt ((lo, hi) # cls) [] = None"
| "match_alt ((lo, hi) # cls) (c # cs) =
     (if in_range lo hi c
      then (case match_alt cls cs of None \<Rightarrow> None | Some (m, r) \<Rightarrow> Some (c # m, r))
      else None)"

text \<open>\<open>int(text)\<close> for the text of a field: digits, possibly after one space.\<close>

definition int_of_digits :: "string \<Rightarrow> nat" where
  "int_of_digits s =
     foldl (\<lambda>acc c. 10 * acc + (of_char c - 48)) 0 (filter (\<lambda>c. c \<noteq> CHR '' '') s)"

text \<open>A field: every alternative that matches here, in the order the regex tries them.\<close>

definition field :: "(char \<times> char) list list \<Rightarrow> string \<Rightarrow> (nat \<times> string) list" where
  "field alts s =
     List.map_filter
       (\<lambda>a. case match_alt a s of None \<Rightarrow> None | Some (m, r) \<Rightarrow> Some (int_of_digits m, r))
       alts"

text \<open>A literal character of the format, matched case-insensitively.\<close>

definition lit :: "char \<Rightarrow> char \<Rightarrow> string \<Rightarrow> string list" where
  "lit up low s = (case s of [] \<Rightarrow> [] | c # cs \<Rightarrow> if c = up \<or> c = low then [cs] else [])"

definition d09 :: "char \<times> char" where "d09 = (CHR ''0'', CHR ''9'')"
definition d19 :: "char \<times> char" where "d19 = (CHR ''1'', CHR ''9'')"
definition one :: "char \<Rightarrow> char \<times> char" where "one c = (c, c)"

definition Y_alts :: "(char \<times> char) list list" where
  "Y_alts = [[d09, d09, d09, d09]]"
definition m_alts :: "(char \<times> char) list list" where
  "m_alts = [[one CHR ''1'', (CHR ''0'', CHR ''2'')], [one CHR ''0'', d19], [d19]]"
definition d_alts :: "(char \<times> char) list list" where
  "d_alts = [[one CHR ''3'', (CHR ''0'', CHR ''1'')], [(CHR ''1'', CHR ''2''), d09],
             [one CHR ''0'', d19], [d19], [one CHR '' '', d19]]"
definition H_alts :: "(char \<times> char) list list" where
  "H_alts = [[one CHR ''2'', (CHR ''0'', CHR ''3'')], [(CHR ''0'', CHR ''1''), d09], [d09]]"
definition M_alts :: "(char \<times> char) list list" where
  "M_alts = [[(CHR ''0'', CHR ''5''), d09], [d09]]"
definition S_alts :: "(char \<times> char) list list" where
  "S_alts = [[one CHR ''6'', (CHR ''0'', CHR ''1'')], [(CHR ''0'', CHR ''5''), d09], [d09]]"

text \<open>All the ways the regex matches a prefix of the string, first choice first.\<close>

definition regex_matches :: "string \<Rightarrow> (datetime \<times> string) list" where
  "regex_matches s =
     concat (map (\<lambda>(y, r1).
     concat (map (\<lambda>r2.
     concat (map (\<lambda>(m, r3).
     concat (map (\<lambda>r4.
     concat (map (\<lambda>(d, r5).
     concat (map (\<lambda>r6.
     concat (map (\<lambda>(H, r7).
     concat (map (\<lambda>r8.
     concat (map (\<lambda>(M, r9).
     concat (map (\<lambda>r10.
     concat (map (\<lambda>(S, r11).
             map (\<lambda>r12.
               (\<lparr>year = y, month = m, day = d, hour = H, minute = M, second = S\<rparr>, r12))
               (lit CHR ''Z'' CHR ''z'' r11))
       (field S_alts r10)))
       (lit CHR '':'' CHR '':'' r9)))
       (field M_alts r8)))
       (lit CHR '':'' CHR '':'' r7)))
       (field H_alts r6)))
       (lit CHR ''T'' CHR ''t'' r5)))
       (field d_alts r4)))
       (lit CHR ''-'' CHR ''-'' r3)))
       (field m_alts r2)))
       (lit CHR ''-'' CHR ''-'' r1)))
       (field Y_alts s))"

definition is_leap :: "nat \<Rightarrow> bool" where
  "is_leap y = (y mod 4 = 0 \<and> (y mod 100 \<noteq> 0 \<or> y mod 400 = 0))"

definition days_in_month :: "nat \<Rightarrow> nat \<Rightarrow> nat" where
  "days_in_month y m =
     (if m = 2 then (if is_leap y then 29 else 28)
      else if m = 4 \<or> m = 6 \<or> m = 9 \<or> m = 11 then 30 else 31)"

definition strptime :: "string \<Rightarrow> error + datetime" where
  "strptime s =
     (case regex_matches s of
        [] \<Rightarrow> Inl ValueError
      | (dt, rest) # _ \<Rightarrow>
          if rest \<noteq> [] then Inl ValueError
          else if year dt < 1 \<or> days_in_month (year dt) (month dt) < day dt \<or> 59 < second dt
          then Inl ValueError
          else Inr dt)"

section \<open>Contribution records and the quarter grouping\<close>

text \<open>
  A contribution is the dict built by \<open>fetch_contributions\<close>: four string fields and one
  timestamp under a category-specific key. \<open>item.get(k)\<close> is \<open>None\<close> for a missing key and
  for a null value alike, so each timestamp key is an optional string.
\<close>

record item =
  title :: string
  url :: string
  repo :: string
  description :: string
  merged_at :: "string option"
  created_at :: "string option"
  reviewed_at :: "string option"
  triaged_at :: "string option"

text \<open>
  The dict of four lists created at lines 27-32 (and again at lines 139-144 for a
  bucket); its keys in insertion order are the constructors of \<open>type_name\<close>.
\<close>

record contributions =
  pullRequests :: "item list"
  issues :: "item list"
  triagedIssues :: "item list"
  reviewedPrs :: "item list"

datatype type_name = PullRequests | Issues | TriagedIssues | ReviewedPrs

fun section_of :: "type_name \<Rightarrow> contributions \<Rightarrow> item list" where
  "section_of PullRequests c = pullRequests c"
| "section_of Issues c = issues c"
| "section_of TriagedIssues c = triagedIssues c"
| "section_of ReviewedPrs c = reviewedPrs c"

fun append_to :: "type_name \<Rightarrow> item \<Rightarrow> contributions \<Rightarrow> contributions" where
  "append_to PullRequests it c = c\<lparr>pullRequests := pullRequests c @ [it]\<rparr>"
| "append_to Issues it c = c\<lparr>issues := issues c @ [it]\<rparr>"
| "append_to TriagedIssues it c = c\<lparr>triagedIssues := triagedIssues c @ [it]\<rparr>"
| "append_to ReviewedPrs it c = c\<lparr>reviewedPrs := reviewedPrs c @ [it]\<rparr>"

definition empty_contributions :: contributions where
  "empty_contributions = \<lparr>pullRequests = [], issues = [], triagedIssues = [], reviewedPrs = []\<rparr>"

text \<open>Line 128 (and line 183): the first truthy timestamp, else the last one looked up.\<close>

definition date_str_of :: "item \<Rightarrow> string option" where
  "date_str_of it =
     py_or (merged_at it) (py_or (created_at it) (py_or (reviewed_at it) (triaged_at it)))"

text \<open>Lines 133-136: the bucket key of a parsed timestamp.\<close>

definition quarter_of :: "datetime \<Rightarrow> string" where
  "quarter_of date_obj = ''Q'' @ str_nat ((month date_obj - 1) div 3 + 1)"

definition key_of :: "datetime \<Rightarrow> string" where
  "key_of date_obj = str_nat (year date_obj) @ ''-'' @ quarter_of date_obj"

text \<open>
  \<open>grouped\<close> is a dict from key to bucket; an association list in insertion order, which
  is the order \<open>write_markdown_files\<close> visits it in.
\<close>

type_synonym grouped = "(string \<times> contributions) list"

definition update_bucket ::
  "string \<Rightarrow> (contributions \<Rightarrow> contributions) \<Rightarrow> grouped \<Rightarrow> grouped" where
  "update_bucket key f g = map (\<lambda>(k, b). if k = key then (k, f b) else (k, b)) g"

text \<open>Lines 128-145: the body of the inner loop for one item.\<close>

definition group_item :: "type_name \<Rightarrow> grouped \<Rightarrow> item \<Rightarrow> error + grouped" where
  "group_item tn g it =
     (case date_str_of it of
        None \<Rightarrow> Inr g
      | Some date_str \<Rightarrow>
          if date_str = [] then Inr g
          else (case strptime date_str of
                  Inl e \<Rightarrow> Inl e
                | Inr date_obj \<Rightarrow>
                    let key = key_of date_obj;
                        g1 = (if key \<notin> fst ` set g then g @ [(key, empty_contributions)] else g)
                    in Inr (update_bucket key (append_to tn it) g1)))"

text \<open>Line 127: the inner loop.\<close>

fun group_items :: "type_name \<Rightarrow> grouped \<Rightarrow> item list \<Rightarrow> error + grouped" where
  "group_items tn g [] = Inr g"
| "group_items tn g (it # items) =
     (case group_item tn g it of Inl e \<Rightarrow> Inl e | Inr g' \<Rightarrow> group_items tn g' items)"

text \<open>Line 126: the outer loop over the four keys of \<open>contributions\<close>.\<close>

fun group_types :: "contributions \<Rightarrow> grouped \<Rightarrow> type_name list \<Rightarrow> error + grouped" where
  "group_types c g [] = Inr g"
| "group_types c g (tn # tns) =
     (case group_items tn g (section_of tn c) of
        Inl e \<Rightarrow> Inl e
      | Inr g' \<Rightarrow> group_types c g' tns)"

definition group_contributions_by_quarter :: "contributions \<Rightarrow> error + grouped" where
  "group_contributions_by_quarter c =
     group_types c [] [PullRequests, Issues, TriagedIssues, ReviewedPrs]"


text \<open>
  What the grouping loop computes as the key of an item, when it computes one: \<open>None\<close>
  when line 129 skips the item or line 132 raises.
\<close>

definition item_key :: "item \<Rightarrow> string option" where
  "item_key it =
     (case date_str_of it of
        None \<Rightarrow> None
      | Some date_str \<Rightarrow>
          if date_str = [] then None
          else (case strptime date_str of Inl e \<Rightarrow> None | Inr date_obj \<Rightarrow> Some (key_of date_obj)))"

text \<open>\<open>grouped.get(k)\<close>, with the empty bucket of lines 139-144 for an absent key.\<close>

definition bucket_of :: "grouped \<Rightarrow> string \<Rightarrow> contributions" where
  "bucket_of g k = (case map_of g k of None \<Rightarrow> empty_contributions | Some b \<Rightarrow> b)"

section \<open>The world the program acts on\<close>

text \<open>
  The remote API is a state machine \<open>http_get\<close> of the environment: a state and the URL of
  a GET request give a response (or a connection-level exception) and the next state. The
  world holds the API's state, the URLs requested so far, the seconds spent in
  \<open>time.sleep\<close>, the lines printed and the files written. \<open>os.makedirs\<close> is not modelled.
\<close>

record raw_item =
  number :: nat
  raw_title :: string
  html_url :: string
  repository_url :: string
  body :: "string option"
  raw_created_at :: "string option"
  updated_at :: "string option"

record pr_data =
  pr_title :: string
  pr_html_url :: string
  pr_body :: "string option"
  pr_merged_at :: "string option"

datatype payload = Items "raw_item list" | PullData pr_data | NoJSON

record response =
  status_code :: nat
  json :: payload
  links_next :: bool

record 's world =
  server :: 's
  requests :: "string list"
  slept :: nat
  stdout :: "string list"
  files :: "string \<rightharpoonup> string"

record 's env =
  http_get :: "'s \<Rightarrow> string \<Rightarrow> (error + response) \<times> 's"
  urlparse_path :: "string \<Rightarrow> string"
  current_year :: nat
  GITHUB_TOKEN :: "string option"

definition GITHUB_USERNAME :: string where "GITHUB_USERNAME = ''adiati98''"
definition SINCE_YEAR :: nat where "SINCE_YEAR = 2019"
definition BASE_URL :: string where "BASE_URL = ''https://api.github.com''"

definition print :: "string \<Rightarrow> 's world \<Rightarrow> 's world" where
  "print line w = w\<lparr>stdout := stdout w @ [line]\<rparr>"

text \<open>\<open>time.sleep\<close>.\<close>

definition sleep :: "nat \<Rightarrow> 's world \<Rightarrow> 's world" where
  "sleep seconds w = w\<lparr>slept := slept w + seconds\<rparr>"

text \<open>\<open>session.get(url)\<close>: the request reaches the API and is answered.\<close>

definition session_get :: "'s env \<Rightarrow> string \<Rightarrow> 's world \<Rightarrow> (error + response) \<times> 's world" where
  "session_get e u w =
     (case http_get e (server w) u of
        (res, s') \<Rightarrow> (res, w\<lparr>server := s', requests := requests w @ [u]\<rparr>))"

section \<open>get\_all\_pages\<close>

text \<open>\<open>Response.raise_for_status\<close> raises \<open>HTTPError\<close> for a status in 400..599.\<close>

definition raises_for_status :: "response \<Rightarrow> bool" where
  "raises_for_status r = (400 \<le> status_code r \<and> status_code r < 600)"

definition search_url :: "string \<Rightarrow> nat \<Rightarrow> string" where
  "search_url query page =
     BASE_URL @ ''/search/issues?q='' @ query @ ''&per_page=100&page='' @ str_nat page"

text \<open>
  Lines 44-64. The \<open>while True\<close> loop need not end, so the function is partial:
  \<open>None\<close> is a run that never returns. An exception leaving the loop is \<open>Some (Inl e)\<close>.
\<close>

partial_function (option) get_all_pages_loop ::
  "'s env \<Rightarrow> string \<Rightarrow> nat \<Rightarrow> raw_item list \<Rightarrow> 's world \<Rightarrow>
   (error + raw_item list \<times> 's world) option" where
  "get_all_pages_loop e query page results w =
     (case session_get e (search_url query page) w of
        (Inl err, w') \<Rightarrow> Some (Inl err)
      | (Inr r, w') \<Rightarrow>
          if raises_for_status r then
            (if status_code r = 403
             then get_all_pages_loop e query page results
                    (sleep 60 (print ''Rate limit hit. Waiting for 60 seconds...'' w'))
             else Some (Inl (HTTPError (status_code r))))
          else (case json r of
                  NoJSON \<Rightarrow> Some (Inl JSONDecodeError)
                | PullData d \<Rightarrow> Some (Inl KeyError)
                | Items its \<Rightarrow>
                    if links_next r
                    then get_all_pages_loop e query (page + 1) (results @ its) w'
                    else Some (Inr (results @ its, w'))))"

definition get_all_pages ::
  "'s env \<Rightarrow> string \<Rightarrow> 's world \<Rightarrow> (error + raw_item list \<times> 's world) option" where
  "get_all_pages e query w = get_all_pages_loop e query 1 [] w"

text \<open>
  The responses a run of the loop receives: from API state \<open>s\<close> the requests for \<open>page\<close>
  and its successors are answered by \<open>rs\<close>, in this order, and leave the API in \<open>s_end\<close>.
  After a 403 the page stays, after any other answer it advances.
\<close>

fun page_trace :: "'s env \<Rightarrow> string \<Rightarrow> 's \<Rightarrow> nat \<Rightarrow> response list \<Rightarrow> 's \<Rightarrow> bool" where
  "page_trace e query s page [] s_end = (s = s_end)"
| "page_trace e query s page (r # rs) s_end =
     (case http_get e s (search_url query page) of
        (Inl err, s') \<Rightarrow> False
      | (Inr r', s') \<Rightarrow>
          r' = r \<and>
          page_trace e query s' (if status_code r = 403 then page else page + 1) rs s_end)"

text \<open>A successful page: no \<open>HTTPError\<close>, and a JSON body with an \<open>items\<close> array.\<close>

definition successful :: "response \<Rightarrow> bool" where
  "successful r = (\<not> raises_for_status r \<and> (case json r of Items its \<Rightarrow> True | _ \<Rightarrow> False))"

definition items_of :: "response \<Rightarrow> raw_item list" where
  "items_of r = (case json r of Items its \<Rightarrow> its | _ \<Rightarrow> [])"

section \<open>fetch\_contributions\<close>

definition placeholder :: string where
  "placeholder = ''No description provided.''"

definition pull_url :: "string \<Rightarrow> string \<Rightarrow> nat \<Rightarrow> string" where
  "pull_url owner repo_name n =
     BASE_URL @ ''/repos/'' @ owner @ ''/'' @ repo_name @ ''/pulls/'' @ str_nat n"

text \<open>Lines 77-83.\<close>

definition pull_record :: "string \<Rightarrow> pr_data \<Rightarrow> item" where
  "pull_record repo_name d =
     \<lparr>title = pr_title d, url = pr_html_url d, repo = repo_name,
      description = or_default (pr_body d) placeholder,
      merged_at = pr_merged_at d, created_at = None, reviewed_at = None, triaged_at = None\<rparr>"

definition repo_of :: "'s env \<Rightarrow> raw_item \<Rightarrow> string" where
  "repo_of e x = last (split_chr CHR ''/'' (urlparse_path e (repository_url x)))"

text \<open>Lines 90-96.\<close>

definition issue_record :: "'s env \<Rightarrow> raw_item \<Rightarrow> item" where
  "issue_record e x =
     \<lparr>title = raw_title x, url = html_url x, repo = repo_of e x,
      description = or_default (body x) placeholder,
      merged_at = None, created_at = raw_created_at x, reviewed_at = None, triaged_at = None\<rparr>"

text \<open>Lines 101-107.\<close>

definition reviewed_record :: "'s env \<Rightarrow> raw_item \<Rightarrow> item" where
  "reviewed_record e x =
     \<lparr>title = raw_title x, url = html_url x, repo = repo_of e x,
      description = or_default (body x) placeholder,
      merged_at = None, created_at = None, reviewed_at = updated_at x, triaged_at = None\<rparr>"

text \<open>Lines 111-117.\<close>

definition triaged_record :: "'s env \<Rightarrow> raw_item \<Rightarrow> item" where
  "triaged_record e x =
     \<lparr>title = raw_title x, url = html_url x, repo = repo_of e x,
      description = or_default (body x) placeholder,
      merged_at = None, created_at = None, reviewed_at = None, triaged_at = updated_at x\<rparr>"

text \<open>
  Lines 70-85, the body of the loop over the merged pull requests. \<open>repo_parts[-2]\<close>
  raises \<open>IndexError\<close> when the path has no slash.
\<close>

definition fetch_pull ::
  "'s env \<Rightarrow> raw_item \<Rightarrow> contributions \<times> 's world \<Rightarrow> error + contributions \<times> 's world" where
  "fetch_pull e pr cw =
     (case cw of (c, w) \<Rightarrow>
      let repo_parts = split_chr CHR ''/'' (urlparse_path e (repository_url pr)) in
      if length repo_parts < 2 then Inl IndexError
      else
        let owner = repo_parts ! (length repo_parts - 2);
            repo_name = last repo_parts
        in (case session_get e (pull_url owner repo_name (number pr)) w of
              (Inl err, w') \<Rightarrow> Inl err
            | (Inr pr_details, w') \<Rightarrow>
                if status_code pr_details = 200
                then (case json pr_details of
                        NoJSON \<Rightarrow> Inl JSONDecodeError
                      | Items its \<Rightarrow> Inl KeyError
                      | PullData d \<Rightarrow>
                          Inr (append_to PullRequests (pull_record repo_name d) c, w'))
                else Inr (c, print (''Could not fetch details for '' @ html_url pr) w')))"

text \<open>Line 69.\<close>

fun fetch_pulls ::
  "'s env \<Rightarrow> raw_item list \<Rightarrow> contributions \<times> 's world \<Rightarrow> error + contributions \<times> 's world" where
  "fetch_pulls e [] cw = Inr cw"
| "fetch_pulls e (pr # prs) cw =
     (case fetch_pull e pr cw of Inl err \<Rightarrow> Inl err | Inr cw' \<Rightarrow> fetch_pulls e prs cw')"

text \<open>Sequencing of steps that may raise or never return.\<close>

definition and_then ::
  "(error + 'a) option \<Rightarrow> ('a \<Rightarrow> (error + 'b) option) \<Rightarrow> (error + 'b) option" where
  "and_then m f = (case m of None \<Rightarrow> None | Some (Inl err) \<Rightarrow> Some (Inl err) | Some (Inr x) \<Rightarrow> f x)"

definition year_start :: "nat \<Rightarrow> string" where
  "year_start y = str_nat y @ ''-01-01T00:00:00Z''"

definition year_end :: "nat \<Rightarrow> string" where
  "year_end y = str_nat (y + 1) @ ''-01-01T00:00:00Z''"

definition merged_query :: "nat \<Rightarrow> string" where
  "merged_query y = ''is:pr author:'' @ GITHUB_USERNAME @ '' is:merged merged:>='' @ year_start y
                    @ '' merged:<'' @ year_end y"

definition issues_query :: "nat \<Rightarrow> string" where
  "issues_query y = ''is:issue author:'' @ GITHUB_USERNAME @ '' created:>='' @ year_start y
                    @ '' created:<'' @ year_end y"

definition reviewed_query :: "nat \<Rightarrow> string" where
  "reviewed_query y = ''is:pr reviewed-by:'' @ GITHUB_USERNAME @ '' reviewed:>='' @ year_start y
                      @ '' reviewed:<'' @ year_end y"

definition triaged_query :: "nat \<Rightarrow> string" where
  "triaged_query y = ''is:issue assignee:'' @ GITHUB_USERNAME @ '' created:>='' @ year_start y
                     @ '' created:<'' @ year_end y"

text \<open>Lines 37-117, the body of the loop over the years.\<close>

definition fetch_year ::
  "'s env \<Rightarrow> nat \<Rightarrow> contributions \<times> 's world \<Rightarrow> (error + contributions \<times> 's world) option" where
  "fetch_year e y cw =
     (case cw of (c, w) \<Rightarrow>
      and_then (get_all_pages e (merged_query y)
                  (print (''Fetching contributions for year: '' @ str_nat y @ ''...'') w))
        (\<lambda>(prs, w1).
      and_then (Some (fetch_pulls e prs (c, w1)))
        (\<lambda>(c1, w2).
      and_then (get_all_pages e (issues_query y) w2)
        (\<lambda>(found_issues, w3).
      and_then (get_all_pages e (reviewed_query y)
                  w3)
        (\<lambda>(reviewed_prs, w4).
      and_then (get_all_pages e (triaged_query y) w4)
        (\<lambda>(triaged_issues, w5).
           Some (Inr
             (c1\<lparr>issues := issues c1 @ map (issue_record e) found_issues,
                  reviewedPrs := reviewedPrs c1 @ map (reviewed_record e) reviewed_prs,
                  triagedIssues := triagedIssues c1 @ map (triaged_record e) triaged_issues\<rparr>,
              w5))))))))"

text \<open>Line 36.\<close>

fun fetch_years ::
  "'s env \<Rightarrow> nat list \<Rightarrow> contributions \<times> 's world \<Rightarrow> (error + contributions \<times> 's world) option" where
  "fetch_years e [] cw = Some (Inr cw)"
| "fetch_years e (y # ys) cw = and_then (fetch_year e y cw) (fetch_years e ys)"

definition fetch_contributions ::
  "'s env \<Rightarrow> 's world \<Rightarrow> (error + contributions \<times> 's world) option" where
  "fetch_contributions e w =
     (if \<not> truthy (GITHUB_TOKEN e) then Some (Inl ValueError)
      else fetch_years e [SINCE_YEAR ..< current_year e + 1] (empty_contributions, w))"

text \<open>
  The answers to the detail lookups of a list of search results: from API state \<open>s\<close> the
  lookups for \<open>prs\<close> are answered by \<open>rs\<close>, one each, and leave the API in \<open>s_end\<close>.
\<close>

definition detail_url :: "'s env \<Rightarrow> raw_item \<Rightarrow> string" where
  "detail_url e pr =
     (let repo_parts = split_chr CHR ''/'' (urlparse_path e (repository_url pr))
      in pull_url (repo_parts ! (length repo_parts - 2)) (last repo_parts) (number pr))"

fun detail_trace :: "'s env \<Rightarrow> 's \<Rightarrow> raw_item list \<Rightarrow> response list \<Rightarrow> 's \<Rightarrow> bool" where
  "detail_trace e s [] rs s_end = (rs = [] \<and> s = s_end)"
| "detail_trace e s (pr # prs) [] s_end = False"
| "detail_trace e s (pr # prs) (r # rs) s_end =
     (case http_get e s (detail_url e pr) of
        (Inl err, s') \<Rightarrow> False
      | (Inr r', s') \<Rightarrow> r' = r \<and> detail_trace e s' prs rs s_end)"

section \<open>write\_markdown\_files\<close>

text \<open>\<open>posixpath.join\<close> of two components.\<close>

definition path_join :: "string \<Rightarrow> string \<Rightarrow> string" where
  "path_join a b =
     (if (case b of [] \<Rightarrow> False | c # cs \<Rightarrow> c = CHR ''/'') then b
      else if a = [] \<or> last a = CHR ''/'' then a @ b
      else a @ ''/'' @ b)"

definition newline :: char where
  "newline = CHR 0x0A"

text \<open>Line 161.\<close>

definition has_data :: "contributions \<Rightarrow> bool" where
  "has_data data =
     (pullRequests data \<noteq> [] \<or> issues data \<noteq> [] \<or> triagedIssues data \<noteq> [] \<or> reviewedPrs data \<noteq> [])"

text \<open>Lines 187-189.\<close>

definition render_description :: "string \<Rightarrow> string" where
  "render_description raw =
     (let description = map (\<lambda>c. if c = newline then CHR '' '' else c) raw
      in if length description > 100 then take 100 description @ ''...'' else description)"

text \<open>
  \<open>strftime("%Y-%m-%d")\<close>, as CPython gives it through the C library of glibc: month and
  day are padded to two digits, the year is printed as it is (four digits from year 1000 on,
  fewer below).
\<close>

definition zero_pad :: "nat \<Rightarrow> nat \<Rightarrow> string" where
  "zero_pad width n = replicate (width - length (str_nat n)) CHR ''0'' @ str_nat n"

definition strftime_ymd :: "datetime \<Rightarrow> string" where
  "strftime_ymd d = str_nat (year d) @ ''-'' @ zero_pad 2 (month d) @ ''-'' @ zero_pad 2 (day d)"

text \<open>Lines 183-191: one table row. \<open>strptime(None)\<close> raises \<open>TypeError\<close>.\<close>

definition render_row :: "item \<Rightarrow> error + string" where
  "render_row it =
     (case date_str_of it of
        None \<Rightarrow> Inl TypeError
      | Some date_str \<Rightarrow>
          (case strptime date_str of
             Inl err \<Rightarrow> Inl err
           | Inr date_obj \<Rightarrow>
               Inr (''| '' @ repo it @ '' | ['' @ title it @ '']('' @ url it @ '') | ''
                    @ render_description (description it) @ '' | '' @ strftime_ymd date_obj
                    @ '' |'' @ [newline])))"

fun render_rows :: "item list \<Rightarrow> error + string" where
  "render_rows [] = Inr []"
| "render_rows (it # items) =
     (case render_row it of
        Inl err \<Rightarrow> Inl err
      | Inr row \<Rightarrow> (case render_rows items of Inl err \<Rightarrow> Inl err | Inr rows \<Rightarrow> Inr (row @ rows)))"

definition heading :: "string \<Rightarrow> string" where
  "heading t = ''## '' @ t @ [newline, newline]"

text \<open>Lines 175-192: one section.\<close>

definition render_section :: "string \<Rightarrow> item list \<Rightarrow> error + string" where
  "render_section t items =
     (if items = []
      then Inr (heading t @ ''No contributions found for this section.'' @ [newline, newline])
      else (case render_rows items of
              Inl err \<Rightarrow> Inl err
            | Inr rows \<Rightarrow>
                Inr (heading t
                     @ ''| Project Name | Link | Description | Date |'' @ [newline]
                     @ ''|---|---|---|---|'' @ [newline]
                     @ rows @ [newline])))"

text \<open>Lines 167-172: the sections, in the insertion order of the dict.\<close>

definition sections :: "(type_name \<times> string) list" where
  "sections = [(PullRequests, ''Pull Requests''), (Issues, ''Issues''),
               (TriagedIssues, ''Triaged Issues''), (ReviewedPrs, ''Reviewed PRs'')]"

fun render_sections :: "contributions \<Rightarrow> (type_name \<times> string) list \<Rightarrow> error + string" where
  "render_sections data [] = Inr []"
| "render_sections data ((tn, t) # rest) =
     (case render_section t (section_of tn data) of
        Inl err \<Rightarrow> Inl err
      | Inr sec \<Rightarrow>
          (case render_sections data rest of Inl err \<Rightarrow> Inl err | Inr others \<Rightarrow> Inr (sec @ others)))"

definition base_dir :: string where
  "base_dir = ''contributions''"

text \<open>
  Lines 156-196, the body of the loop over the buckets. Unpacking \<open>key.split("-")\<close> into
  two names raises \<open>ValueError\<close> unless there are exactly two parts.
\<close>

definition write_quarter :: "string \<times> contributions \<Rightarrow> 's world \<Rightarrow> error + 's world" where
  "write_quarter kd w =
     (case kd of (key, data) \<Rightarrow>
      (case split_chr CHR ''-'' key of
         [y, quarter] \<Rightarrow>
           let year_dir = path_join base_dir y;
               file_path = path_join year_dir (quarter @ ''-'' @ y @ ''.md'')
           in if \<not> has_data data then Inr (print (''Skipping empty quarter: '' @ key) w)
              else (case render_sections data sections of
                      Inl err \<Rightarrow> Inl err
                    | Inr secs \<Rightarrow>
                        let markdown_content =
                              ''# Contributions - '' @ quarter @ '' '' @ y @ [newline, newline] @ secs
                        in Inr (print (''Written file: '' @ file_path)
                                  (w\<lparr>files := (files w)(file_path \<mapsto> markdown_content)\<rparr>)))
       | _ \<Rightarrow> Inl ValueError))"

text \<open>Line 155.\<close>

fun write_markdown_files :: "grouped \<Rightarrow> 's world \<Rightarrow> error + 's world" where
  "write_markdown_files [] w = Inr w"
| "write_markdown_files (kd # rest) w =
     (case write_quarter kd w of Inl err \<Rightarrow> Inl err | Inr w' \<Rightarrow> write_markdown_files rest w')"

section \<open>main\<close>

text \<open>
  Lines 198-206: the outcome of a run that returns is either completion, or exit code 1
  after any exception.
\<close>

datatype 's outcome = Completed "'s world" | Exit1 error

definition main :: "'s env \<Rightarrow> 's world \<Rightarrow> 's outcome option" where
  "main e w =
     (case fetch_contributions e w of
        None \<Rightarrow> None
      | Some (Inl err) \<Rightarrow> Some (Exit1 err)
      | Some (Inr (c, w1)) \<Rightarrow>
          (case group_contributions_by_quarter c of
             Inl err \<Rightarrow> Some (Exit1 err)
           | Inr g \<Rightarrow>
               (case write_markdown_files g w1 of
                  Inl err \<Rightarrow> Some (Exit1 err)
                | Inr w2 \<Rightarrow>
                    Some (Completed (print ''Contributions update completed successfully.'' w2)))))"

section \<open>Vocabulary of the properties\<close>

text \<open>
  A malformed timestamp: a non-empty string that \<open>strptime\<close> rejects. An absent one
  (\<open>None\<close> or the empty string) is not malformed.
\<close>

definition malformed :: "item \<Rightarrow> bool" where
  "malformed it =
     (case date_str_of it of
        None \<Rightarrow> False
      | Some s \<Rightarrow> s \<noteq> [] \<and> (case strptime s of Inl e \<Rightarrow> True | Inr d \<Rightarrow> False))"


text \<open>
  The program points of the year body (lines 68, 88, 99 and 109) at which a search is
  started: the query, and the world in which \<open>get_all_pages\<close> is called with it, for
  the year body run on the given contributions and world.
\<close>

inductive search_started ::
  "'s env \<Rightarrow> nat \<Rightarrow> contributions \<times> 's world \<Rightarrow> string \<Rightarrow> 's world \<Rightarrow> bool" where
  merged_search:
    "search_started e y (c, w) (merged_query y)
       (print (''Fetching contributions for year: '' @ str_nat y @ ''...'') w)"
| issues_search:
    "get_all_pages e (merged_query y)
       (print (''Fetching contributions for year: '' @ str_nat y @ ''...'') w) = Some (Inr (prs, w1)) \<Longrightarrow>
     fetch_pulls e prs (c, w1) = Inr (c1, w2) \<Longrightarrow>
     search_started e y (c, w) (issues_query y) w2"
| reviewed_search:
    "get_all_pages e (merged_query y)
       (print (''Fetching contributions for year: '' @ str_nat y @ ''...'') w) = Some (Inr (prs, w1)) \<Longrightarrow>
     fetch_pulls e prs (c, w1) = Inr (c1, w2) \<Longrightarrow>
     get_all_pages e (issues_query y) w2 = Some (Inr (found_issues, w3)) \<Longrightarrow>
     search_started e y (c, w) (reviewed_query y) w3"
| triaged_search:
    "get_all_pages e (merged_query y)
       (print (''Fetching contributions for year: '' @ str_nat y @ ''...'') w) = Some (Inr (prs, w1)) \<Longrightarrow>
     fetch_pulls e prs (c, w1) = Inr (c1, w2) \<Longrightarrow>
     get_all_pages e (issues_query y) w2 = Some (Inr (found_issues, w3)) \<Longrightarrow>
     get_all_pages e (reviewed_query y) w3 = Some (Inr (reviewed_prs, w4)) \<Longrightarrow>
     search_started e y (c, w) (triaged_query y) w4"

code_pred search_started .




text \<open>Sample data for the concrete instances below.\<close>

definition sample_item :: "string option \<Rightarrow> item" where
  "sample_item ts =
     \<lparr>title = ''Fix typo'', url = ''https://github.com/o/r/pull/1'', repo = ''r'',
      description = ''Fixes a typo'', merged_at = ts, created_at = None, reviewed_at = None,
      triaged_at = None\<rparr>"

definition sample_set :: "item list \<Rightarrow> contributions" where
  "sample_set prs = \<lparr>pullRequests = prs, issues = [], triagedIssues = [], reviewedPrs = []\<rparr>"

definition sample_raw :: "nat \<Rightarrow> string option \<Rightarrow> raw_item" where
  "sample_raw n b =
     \<lparr>number = n, raw_title = ''Fix typo'', html_url = ''https://github.com/o/r/pull/'' @ str_nat n,
      repository_url = ''https://api.github.com/repos/o/r'', body = b,
      raw_created_at = Some ''2022-04-15T00:00:00Z'', updated_at = Some ''2022-04-16T00:00:00Z''\<rparr>"

definition sample_pr_data :: "string option \<Rightarrow> pr_data" where
  "sample_pr_data b =
     \<lparr>pr_title = ''Fix typo'', pr_html_url = ''https://github.com/o/r/pull/7'', pr_body = b,
      pr_merged_at = Some ''2022-04-15T00:00:00Z''\<rparr>"

text \<open>
  A scripted API: its state counts the requests; request number \<open>s\<close> is answered by
  the \<open>s\<close>-th entry of the script when it asks for that entry's URL, and fails at
  connection level otherwise.
\<close>

definition scripted :: "(string \<times> response) list \<Rightarrow> nat \<Rightarrow> string \<Rightarrow> (error + response) \<times> nat" where
  "scripted script s u =
     (if s < length script \<and> fst (script ! s) = u then Inr (snd (script ! s))
      else Inl ConnectionError,
      Suc s)"

definition sample_env :: "(string \<times> response) list \<Rightarrow> nat env" where
  "sample_env script =
     \<lparr>http_get = scripted script, urlparse_path = drop (length BASE_URL),
      current_year = 2019, GITHUB_TOKEN = Some ''secret''\<rparr>"

definition sample_world :: "nat world" where
  "sample_world = \<lparr>server = 0, requests = [], slept = 0, stdout = [], files = Map.empty\<rparr>"

definition page_response :: "nat \<Rightarrow> raw_item list \<Rightarrow> bool \<Rightarrow> response" where
  "page_response st its nxt = \<lparr>status_code = st, json = Items its, links_next = nxt\<rparr>"

text \<open>
  The pages a run of the loop requests while it receives the given responses, starting at
  page \<open>p\<close>.
\<close>

fun pages_requested :: "nat \<Rightarrow> response list \<Rightarrow> nat list" where
  "pages_requested p [] = []"
| "pages_requested p (r # rs) = p # pages_requested (if status_code r = 403 then p else p + 1) rs"

text \<open>
  What the detail lookup of one search result adds to the \<open>pullRequests\<close> list, and what
  it prints, given the response to the lookup.
\<close>

definition kept_pull :: "'s env \<Rightarrow> raw_item \<times> response \<Rightarrow> item list" where
  "kept_pull e x =
     (case x of (pr, r) \<Rightarrow>
        if status_code r = 200
        then (case json r of PullData d \<Rightarrow> [pull_record (repo_of e pr) d] | _ \<Rightarrow> [])
        else [])"

definition skipped_line :: "raw_item \<times> response \<Rightarrow> string list" where
  "skipped_line x =
     (case x of (pr, r) \<Rightarrow>
        if status_code r = 200 then [] else [''Could not fetch details for '' @ html_url pr])"

definition sample_pages :: "(string \<times> response) list" where
  "sample_pages =
     [(search_url ''is:pr'' 1, page_response 200 [sample_raw 1 None, sample_raw 2 None] True),
      (search_url ''is:pr'' 2, page_response 200 [sample_raw 3 None] False)]"

definition sample_retry :: "(string \<times> response) list" where
  "sample_retry =
     [(search_url ''is:pr'' 1, \<lparr>status_code = 403, json = NoJSON, links_next = False\<rparr>),
      (search_url ''is:pr'' 1, page_response 200 [sample_raw 1 None] False)]"

definition sample_failure :: "(string \<times> response) list" where
  "sample_failure =
     [(search_url ''is:pr'' 1, \<lparr>status_code = 500, json = NoJSON, links_next = False\<rparr>)]"

definition sample_details :: "(string \<times> response) list" where
  "sample_details =
     [(pull_url ''o'' ''r'' 1, \<lparr>status_code = 404, json = NoJSON, links_next = False\<rparr>),
      (pull_url ''o'' ''r'' 2,
       \<lparr>status_code = 200, json = PullData (sample_pr_data None), links_next = False\<rparr>)]"

definition sample_issue_failure :: "(string \<times> response) list" where
  "sample_issue_failure =
     [(search_url (merged_query 2019) 1, page_response 200 [] False),
      (search_url (issues_query 2019) 1, \<lparr>status_code = 500, json = NoJSON, links_next = False\<rparr>)]"

definition sample_run :: "(string \<times> response) list" where
  "sample_run =
     [(search_url (merged_query 2019) 1,
       page_response 200 [sample_raw 1 None, sample_raw 2 None] False),
      (pull_url ''o'' ''r'' 1, \<lparr>status_code = 404, json = NoJSON, links_next = False\<rparr>),
      (pull_url ''o'' ''r'' 2,
       \<lparr>status_code = 200, json = PullData (sample_pr_data None), links_next = False\<rparr>),
      (search_url (issues_query 2019) 1, page_response 200 [] False),
      (search_url (reviewed_query 2019) 1, page_response 200 [] False),
      (search_url (triaged_query 2019) 1, page_response 200 [] False)]"

section \<open>Properties of the grouping\<close>

lemma section_of_append_to:
  "section_of tn' (append_to tn it c) = section_of tn' c @ (if tn' = tn then [it] else [])"
  by (cases tn; cases tn') simp_all

lemma section_of_empty [simp]: "section_of tn empty_contributions = []"
  by (cases tn) (simp_all add: empty_contributions_def)

lemma map_of_update_bucket:
  "map_of (update_bucket key f g) k = (if k = key then map_option f (map_of g k) else map_of g k)"
  by (induction g) (auto simp: update_bucket_def)

lemma keys_update_bucket [simp]: "map fst (update_bucket key f g) = map fst g"
  by (induction g) (auto simp: update_bucket_def)

lemma update_bucket_absent: "key \<notin> fst ` set g \<Longrightarrow> update_bucket key f g = g"
  by (induction g) (auto simp: update_bucket_def)

lemma update_bucket_append:
  "update_bucket key f (g @ h) = update_bucket key f g @ update_bucket key f h"
  by (simp add: update_bucket_def)

lemma group_item_cases:
  assumes "group_item tn g it = Inr g'"
  obtains (skip) "item_key it = None" "g' = g"
  | (old) k where "item_key it = Some k" "k \<in> fst ` set g" "g' = update_bucket k (append_to tn it) g"
  | (new) k where "item_key it = Some k" "k \<notin> fst ` set g"
      "g' = g @ [(k, append_to tn it empty_contributions)]"
proof (cases "item_key it")
  case None
  with assms have "g' = g"
    by (auto simp: group_item_def item_key_def split: option.splits if_splits sum.splits)
  with None show ?thesis by (rule skip)
next
  case (Some k)
  with assms have g': "g' = update_bucket k (append_to tn it)
        (if k \<notin> fst ` set g then g @ [(k, empty_contributions)] else g)"
    by (auto simp: group_item_def item_key_def Let_def split: option.splits if_splits sum.splits)
  show ?thesis
  proof (cases "k \<in> fst ` set g")
    case True
    with g' Some show ?thesis by (auto intro: old)
  next
    case False
    with g' have "g' = g @ [(k, append_to tn it empty_contributions)]"
      by (simp add: update_bucket_append update_bucket_absent) (simp add: update_bucket_def)
    with Some False show ?thesis by (rule new)
  qed
qed

lemma group_item_keys:
  assumes "group_item tn g it = Inr g'" "distinct (map fst g)"
  shows "distinct (map fst g') \<and> fst ` set g' = fst ` set g \<union> {k. item_key it = Some k}"
  using assms(1)
proof (cases rule: group_item_cases)
  case skip
  with assms(2) show ?thesis by simp
next
  case (old k)
  have "fst ` set g' = set (map fst g')" by simp
  also have "\<dots> = fst ` set g" using old(3) by (simp del: set_map) simp
  finally show ?thesis using old assms(2) by auto
next
  case (new k)
  with assms(2) show ?thesis by auto
qed

lemma group_item_bucket:
  assumes "group_item tn g it = Inr g'" "distinct (map fst g)"
  shows "section_of tn' (bucket_of g' k) =
         section_of tn' (bucket_of g k) @ (if tn' = tn \<and> item_key it = Some k then [it] else [])"
  using assms(1)
proof (cases rule: group_item_cases)
  case skip
  then show ?thesis by simp
next
  case (old k')
  then obtain b where "map_of g k' = Some b"
    using assms(2) by (metis domD dom_map_of_conv_image_fst)
  with old show ?thesis
    by (auto simp: bucket_of_def map_of_update_bucket section_of_append_to split: option.splits)
next
  case (new k')
  then have none: "map_of g k' = None"
    by (simp add: map_of_eq_None_iff)
  with new show ?thesis
    by (auto simp: bucket_of_def section_of_append_to map_add_def split: option.splits)
qed

lemma group_items_keys:
  assumes "group_items tn g items = Inr g'" "distinct (map fst g)"
  shows "distinct (map fst g') \<and>
         fst ` set g' = fst ` set g \<union> {k. \<exists>it \<in> set items. item_key it = Some k}"
  using assms
proof (induction items arbitrary: g)
  case Nil
  then show ?case by simp
next
  case (Cons it items)
  from Cons.prems(1) obtain g1 where g1: "group_item tn g it = Inr g1"
    and rest: "group_items tn g1 items = Inr g'"
    by (auto split: sum.splits)
  from group_item_keys[OF g1 Cons.prems(2)] Cons.IH[OF rest]
  show ?case by auto
qed

lemma group_items_bucket:
  assumes "group_items tn g items = Inr g'" "distinct (map fst g)"
  shows "section_of tn' (bucket_of g' k) =
         section_of tn' (bucket_of g k) @
           (if tn' = tn then filter (\<lambda>it. item_key it = Some k) items else [])"
  using assms
proof (induction items arbitrary: g)
  case Nil
  then show ?case by simp
next
  case (Cons it items)
  from Cons.prems(1) obtain g1 where g1: "group_item tn g it = Inr g1"
    and rest: "group_items tn g1 items = Inr g'"
    by (auto split: sum.splits)
  have d1: "distinct (map fst g1)" using group_item_keys[OF g1 Cons.prems(2)] by simp
  show ?case
    using Cons.IH[OF rest d1] group_item_bucket[OF g1 Cons.prems(2), of tn' k]
    by simp
qed

lemma group_by_quarter_unfold:
  assumes "group_contributions_by_quarter c = Inr g"
  obtains g1 g2 g3 where
    "group_items PullRequests [] (pullRequests c) = Inr g1"
    "group_items Issues g1 (issues c) = Inr g2"
    "group_items TriagedIssues g2 (triagedIssues c) = Inr g3"
    "group_items ReviewedPrs g3 (reviewedPrs c) = Inr g"
  using assms
  by (auto simp: group_contributions_by_quarter_def split: sum.splits)

lemma grouped_keys:
  assumes "group_contributions_by_quarter c = Inr g"
  shows "distinct (map fst g)"
    and "fst ` set g = {k. \<exists>tn. \<exists>it \<in> set (section_of tn c). item_key it = Some k}"
proof -
  from assms obtain g1 g2 g3 where
    s: "group_items PullRequests [] (pullRequests c) = Inr g1"
    "group_items Issues g1 (issues c) = Inr g2"
    "group_items TriagedIssues g2 (triagedIssues c) = Inr g3"
    "group_items ReviewedPrs g3 (reviewedPrs c) = Inr g"
    by (rule group_by_quarter_unfold)
  have k1: "distinct (map fst g1) \<and> fst ` set g1 = {k. \<exists>it \<in> set (pullRequests c). item_key it = Some k}"
    using group_items_keys[OF s(1)] by simp
  have k2: "distinct (map fst g2) \<and> fst ` set g2 = fst ` set g1 \<union> {k. \<exists>it \<in> set (issues c). item_key it = Some k}"
    using group_items_keys[OF s(2)] k1 by simp
  have k3: "distinct (map fst g3) \<and> fst ` set g3 = fst ` set g2 \<union> {k. \<exists>it \<in> set (triagedIssues c). item_key it = Some k}"
    using group_items_keys[OF s(3)] k2 by simp
  have k4: "distinct (map fst g) \<and> fst ` set g = fst ` set g3 \<union> {k. \<exists>it \<in> set (reviewedPrs c). item_key it = Some k}"
    using group_items_keys[OF s(4)] k3 by simp
  show "distinct (map fst g)" using k4 by simp
  have ex: "\<And>P. (\<exists>tn. P tn) = (P PullRequests \<or> P Issues \<or> P TriagedIssues \<or> P ReviewedPrs)"
    by (metis type_name.exhaust)
  show "fst ` set g = {k. \<exists>tn. \<exists>it \<in> set (section_of tn c). item_key it = Some k}"
    unfolding ex using k1 k2 k3 k4 by auto
qed

lemma grouped_bucket:
  assumes "group_contributions_by_quarter c = Inr g"
  shows "section_of tn (bucket_of g k) = filter (\<lambda>it. item_key it = Some k) (section_of tn c)"
proof -
  from assms obtain g1 g2 g3 where
    s: "group_items PullRequests [] (pullRequests c) = Inr g1"
    "group_items Issues g1 (issues c) = Inr g2"
    "group_items TriagedIssues g2 (triagedIssues c) = Inr g3"
    "group_items ReviewedPrs g3 (reviewedPrs c) = Inr g"
    by (rule group_by_quarter_unfold)
  have d1: "distinct (map fst g1)" using group_items_keys[OF s(1)] by simp
  have d2: "distinct (map fst g2)" using group_items_keys[OF s(2) d1] by simp
  have d3: "distinct (map fst g3)" using group_items_keys[OF s(3) d2] by simp
  have b0: "section_of tn (bucket_of [] k) = []" by (simp add: bucket_of_def)
  note b1 = group_items_bucket[OF s(1), of tn k, simplified]
  note b2 = group_items_bucket[OF s(2) d1, of tn k]
  note b3 = group_items_bucket[OF s(3) d2, of tn k]
  note b4 = group_items_bucket[OF s(4) d3, of tn k]
  show ?thesis
    using b0 b1 b2 b3 b4 by (cases tn) simp_all
qed

lemma bucket_of_mem:
  "distinct (map fst g) \<Longrightarrow> (k, b) \<in> set g \<Longrightarrow> bucket_of g k = b"
  by (simp add: bucket_of_def)


lemma sum_list_single_key:
  "distinct (map fst g) \<Longrightarrow>
   (\<Sum>(k, b)\<leftarrow>g. if Some k = ko then {#x#} else {#}) =
   (if ko \<in> Some ` fst ` set g then {#x#} else {#})"
  by (induction g) (auto simp: image_iff)

lemma sum_filter_keys:
  assumes "distinct (map fst g)"
    and "\<forall>it \<in> set xs. \<forall>k. item_key it = Some k \<longrightarrow> k \<in> fst ` set g"
  shows "(\<Sum>(k, b)\<leftarrow>g. mset (filter (\<lambda>it. item_key it = Some k) xs)) =
         mset (filter (\<lambda>it. item_key it \<noteq> None) xs)"
  using assms(2)
proof (induction xs)
  case Nil
  show ?case by (induction g) auto
next
  case (Cons x xs)
  have split: "(\<lambda>(k, b). mset (filter (\<lambda>it. item_key it = Some k) (x # xs))) =
        (\<lambda>kb. (case kb of (k, b) \<Rightarrow> if Some k = item_key x then {#x#} else {#}) +
              (case kb of (k, b) \<Rightarrow> mset (filter (\<lambda>it. item_key it = Some k) xs)))"
    by (auto simp: fun_eq_iff)
  have one: "(\<Sum>(k, b)\<leftarrow>g. if Some k = item_key x then {#x#} else {#}) =
             (if item_key x \<noteq> None then {#x#} else {#})"
    using Cons.prems sum_list_single_key[OF assms(1), of "item_key x" x]
    by (cases "item_key x") auto
  show ?case
    unfolding split sum_list_addf one using Cons by simp
qed

lemma strptime_error: "strptime s = Inl e \<Longrightarrow> e = ValueError"
  by (auto simp: strptime_def split: list.splits if_splits prod.splits)

lemma strptime_Nil: "strptime [] = Inl ValueError"
  by (simp add: strptime_def regex_matches_def field_def Y_alts_def d09_def List.map_filter_def)

lemma group_item_result:
  "group_item tn g it = (if malformed it then Inl ValueError
      else Inr (case item_key it of None \<Rightarrow> g
           | Some k \<Rightarrow> update_bucket k (append_to tn it)
               (if k \<notin> fst ` set g then g @ [(k, empty_contributions)] else g)))"
  by (auto simp: group_item_def malformed_def item_key_def Let_def
      split: option.splits sum.splits dest: strptime_error)

lemma group_items_malformed:
  "(\<exists>it \<in> set items. malformed it) \<Longrightarrow> group_items tn g items = Inl ValueError"
  by (induction items arbitrary: g) (auto simp: group_item_result)

lemma group_items_ok:
  "\<forall>it \<in> set items. \<not> malformed it \<Longrightarrow> \<exists>g'. group_items tn g items = Inr g'"
  by (induction items arbitrary: g) (auto simp: group_item_result)

lemma group_items_error: "group_items tn g items = Inl e \<Longrightarrow> e = ValueError"
  by (induction items arbitrary: g) (auto simp: group_item_result split: if_splits)

lemma ex_type_name:
  "(\<exists>tn. P tn) = (P PullRequests \<or> P Issues \<or> P TriagedIssues \<or> P ReviewedPrs)"
  by (metis type_name.exhaust)

lemma all_type_name:
  "(\<forall>tn. P tn) = (P PullRequests \<and> P Issues \<and> P TriagedIssues \<and> P ReviewedPrs)"
  by (metis type_name.exhaust)

lemma group_types_malformed:
  "\<exists>tn \<in> set tns. \<exists>it \<in> set (section_of tn c). malformed it \<Longrightarrow>
   group_types c g tns = Inl ValueError"
proof (induction tns arbitrary: g)
  case Nil
  then show ?case by simp
next
  case (Cons tn tns)
  show ?case
  proof (cases "group_items tn g (section_of tn c)")
    case (Inl e)
    then show ?thesis using group_items_error[OF Inl] by simp
  next
    case (Inr g')
    then have "\<not> (\<exists>it \<in> set (section_of tn c). malformed it)"
      using group_items_malformed[of "section_of tn c" tn g] by auto
    with Cons.prems have "\<exists>tn \<in> set tns. \<exists>it \<in> set (section_of tn c). malformed it"
      by auto
    from Cons.IH[OF this] Inr show ?thesis by simp
  qed
qed

lemma group_types_ok:
  "\<forall>tn \<in> set tns. \<forall>it \<in> set (section_of tn c). \<not> malformed it \<Longrightarrow>
   \<exists>g'. group_types c g tns = Inr g'"
proof (induction tns arbitrary: g)
  case Nil
  then show ?case by simp
next
  case (Cons tn tns)
  then obtain g1 where "group_items tn g (section_of tn c) = Inr g1"
    using group_items_ok[of "section_of tn c" tn g] by auto
  with Cons show ?case by simp
qed

lemma group_malformed:
  assumes "\<exists>tn. \<exists>it \<in> set (section_of tn c). malformed it"
  shows "group_contributions_by_quarter c = Inl ValueError"
  unfolding group_contributions_by_quarter_def
  by (rule group_types_malformed) (use assms in \<open>simp add: ex_type_name\<close>)

lemma group_ok:
  assumes "\<forall>tn. \<forall>it \<in> set (section_of tn c). \<not> malformed it"
  shows "\<exists>g. group_contributions_by_quarter c = Inr g"
  unfolding group_contributions_by_quarter_def
  by (rule group_types_ok) (use assms in simp)

lemma has_data_iff: "has_data b = (\<exists>tn. section_of tn b \<noteq> [])"
  by (simp add: ex_type_name has_data_def)

lemma grouped_member:
  assumes "group_contributions_by_quarter c = Inr g" "(k, b) \<in> set g"
  shows "section_of tn b = filter (\<lambda>it. item_key it = Some k) (section_of tn c)"
  using grouped_bucket[OF assms(1), of tn k] bucket_of_mem[OF grouped_keys(1)[OF assms(1)] assms(2)]
  by simp

lemma write_quarter_stdout:
  assumes "has_data b" "write_quarter (k, b) w = Inr w'"
  shows "\<exists>p. stdout w' = stdout w @ [''Written file: '' @ p]"
proof -
  from assms obtain y q secs where "split_chr CHR ''-'' k = [y, q]"
    and "w' = print (''Written file: '' @ path_join (path_join base_dir y) (q @ ''-'' @ y @ ''.md''))
                (w\<lparr>files := (files w)(path_join (path_join base_dir y) (q @ ''-'' @ y @ ''.md'') \<mapsto>
                   ''# Contributions - '' @ q @ '' '' @ y @ [newline, newline] @ secs)\<rparr>)"
    by (auto simp: write_quarter_def Let_def split: list.splits sum.splits)
  then show ?thesis by (simp add: print_def)
qed

lemma item_key_truthy: "item_key it = Some k \<Longrightarrow> truthy (date_str_of it)"
  by (auto simp: item_key_def split: option.splits if_splits)

lemma item_key_Some:
  "truthy (date_str_of it) \<Longrightarrow> \<not> malformed it \<Longrightarrow> \<exists>k. item_key it = Some k"
  by (auto simp: item_key_def malformed_def split: option.splits sum.splits)


text \<open>
  Claim C3, as the code has it. A record whose timestamp is absent (\<open>None\<close> or the empty
  string) is dropped: the loop body leaves the mapping as it is, no bucket receives the
  record and grouping goes on. A record whose timestamp is a non-empty string that
  \<open>strptime\<close> rejects is not dropped: the loop body raises \<open>ValueError\<close>, and so does
  grouping, whichever category holds the record. When no record is malformed, grouping
  returns, and every record with a timestamp is in a bucket, in its own category.
\<close>

theorem grouping_timestamps:
  "((\<exists>tn. \<exists>it \<in> set (section_of tn c). malformed it) \<longrightarrow>
      group_contributions_by_quarter c = Inl ValueError) \<and>
   ((\<forall>tn. \<forall>it \<in> set (section_of tn c). \<not> malformed it) \<longrightarrow>
      (\<exists>g. group_contributions_by_quarter c = Inr g \<and>
        (\<forall>tn. \<forall>it \<in> set (section_of tn c).
           (truthy (date_str_of it) \<longrightarrow> (\<exists>k b. (k, b) \<in> set g \<and> it \<in> set (section_of tn b))) \<and>
           (\<not> truthy (date_str_of it) \<longrightarrow>
              (\<forall>k b tn'. (k, b) \<in> set g \<longrightarrow> it \<notin> set (section_of tn' b)))))) \<and>
   (\<not> truthy (date_str_of x) \<longrightarrow> group_item tn0 g0 x = Inr g0) \<and>
   (malformed x \<longrightarrow> group_item tn0 g0 x = Inl ValueError)"
proof (intro conjI impI)
  assume "\<not> truthy (date_str_of x)"
  then have "\<not> malformed x" "item_key x = None"
    by (auto simp: malformed_def item_key_def split: option.splits)
  then show "group_item tn0 g0 x = Inr g0"
    by (simp add: group_item_result)
next
  assume "malformed x"
  then show "group_item tn0 g0 x = Inl ValueError"
    by (simp add: group_item_result)
next
  assume "\<exists>tn. \<exists>it \<in> set (section_of tn c). malformed it"
  then show "group_contributions_by_quarter c = Inl ValueError" by (rule group_malformed)
next
  assume ok: "\<forall>tn. \<forall>it \<in> set (section_of tn c). \<not> malformed it"
  then obtain g where g: "group_contributions_by_quarter c = Inr g"
    using group_ok by blast
  have 1: "\<exists>k b. (k, b) \<in> set g \<and> it \<in> set (section_of tn b)"
    if h1: "it \<in> set (section_of tn c)" and h2: "truthy (date_str_of it)" for tn it
  proof -
    have "\<not> malformed it" using h1 ok by blast
    then obtain k where k: "item_key it = Some k" using item_key_Some[OF h2] by blast
    then have "k \<in> fst ` set g" unfolding grouped_keys(2)[OF g] using h1 by auto
    then obtain b where b: "(k, b) \<in> set g" by auto
    have "it \<in> set (section_of tn b)"
      unfolding grouped_member[OF g b] using h1 k by simp
    with b show ?thesis by blast
  qed
  have 2: "it \<notin> set (section_of tn' b)"
    if "\<not> truthy (date_str_of it)" "(k, b) \<in> set g" for it k b tn'
    using that(1) item_key_truthy unfolding grouped_member[OF g that(2)] by auto
  from g 1 2 show "\<exists>g. group_contributions_by_quarter c = Inr g \<and>
        (\<forall>tn. \<forall>it \<in> set (section_of tn c).
           (truthy (date_str_of it) \<longrightarrow> (\<exists>k b. (k, b) \<in> set g \<and> it \<in> set (section_of tn b))) \<and>
           (\<not> truthy (date_str_of it) \<longrightarrow>
              (\<forall>k b tn'. (k, b) \<in> set g \<longrightarrow> it \<notin> set (section_of tn' b))))"
    by blast
qed

theorem grouping_timestamps_witness:
  "group_contributions_by_quarter
     (sample_set [sample_item (Some ''2022-04-15T00:00:00Z''), sample_item (Some ''yesterday'')])
     = Inl ValueError \<and>
   (\<exists>g. group_contributions_by_quarter
           (sample_set [sample_item None, sample_item (Some ''2022-04-15T00:00:00Z'')]) = Inr g \<and>
        (\<exists>k b. (k, b) \<in> set g \<and> sample_item (Some ''2022-04-15T00:00:00Z'') \<in> set (pullRequests b)) \<and>
        (\<forall>k b. (k, b) \<in> set g \<longrightarrow> sample_item None \<notin> set (pullRequests b)))"
proof -
  let ?bad = "sample_set [sample_item (Some ''2022-04-15T00:00:00Z''), sample_item (Some ''yesterday'')]"
  let ?ok = "sample_set [sample_item None, sample_item (Some ''2022-04-15T00:00:00Z'')]"
  have m: "malformed (sample_item (Some ''yesterday''))"
    by code_simp
  have n1: "\<not> malformed (sample_item None)"
    by code_simp
  have n2: "\<not> malformed (sample_item (Some ''2022-04-15T00:00:00Z''))"
    by code_simp
  have t1: "truthy (date_str_of (sample_item (Some ''2022-04-15T00:00:00Z'')))"
    by code_simp
  have t2: "\<not> truthy (date_str_of (sample_item None))"
    by code_simp
  have bad: "\<exists>tn. \<exists>it \<in> set (section_of tn ?bad). malformed it"
    using m by (intro exI[of _ PullRequests]) (simp add: sample_set_def)
  have ok: "\<forall>tn. \<forall>it \<in> set (section_of tn ?ok). \<not> malformed it"
    using n1 n2 by (simp add: all_type_name sample_set_def)
  have 1: "group_contributions_by_quarter ?bad = Inl ValueError"
    using grouping_timestamps[of ?bad] bad by blast
  obtain g where g: "group_contributions_by_quarter ?ok = Inr g"
    and all: "\<forall>tn. \<forall>it \<in> set (section_of tn ?ok).
           (truthy (date_str_of it) \<longrightarrow> (\<exists>k b. (k, b) \<in> set g \<and> it \<in> set (section_of tn b))) \<and>
           (\<not> truthy (date_str_of it) \<longrightarrow>
              (\<forall>k b tn'. (k, b) \<in> set g \<longrightarrow> it \<notin> set (section_of tn' b)))"
    using grouping_timestamps[of ?ok] ok by blast
  have in1: "sample_item (Some ''2022-04-15T00:00:00Z'') \<in> set (section_of PullRequests ?ok)"
    by (simp add: sample_set_def)
  have in2: "sample_item None \<in> set (section_of PullRequests ?ok)"
    by (simp add: sample_set_def)
  have 2: "\<exists>k b. (k, b) \<in> set g \<and> sample_item (Some ''2022-04-15T00:00:00Z'') \<in> set (pullRequests b)"
    using all in1 t1 by fastforce
  have 3: "\<forall>k b. (k, b) \<in> set g \<longrightarrow> sample_item None \<notin> set (pullRequests b)"
  proof (intro allI impI)
    fix k b assume "(k, b) \<in> set g"
    with all in2 t2 have "sample_item None \<notin> set (section_of PullRequests b)" by blast
    then show "sample_item None \<notin> set (pullRequests b)" by simp
  qed
  from 1 g 2 3 show ?thesis by blast
qed

text \<open>
  Claim C3 as stated fails: a record with the malformed timestamp \<open>April 15th, 2022\<close> is
  not dropped; grouping raises \<open>ValueError\<close> and the run aborts.
\<close>

theorem malformed_timestamp_aborts_grouping:
  "group_contributions_by_quarter (sample_set [sample_item (Some ''April 15th, 2022'')])
     = Inl ValueError"
  by code_simp

text \<open>
  Claim C5: for a record with a parseable timestamp the loop body appends the record to
  the bucket whose key is the year, \<open>-Q\<close> and \<open>(month - 1) div 3 + 1\<close>, creating that
  bucket when it is new; in a grouping result the record is in the bucket of this key and
  in no bucket with another key; the three timestamps of the specification give the keys
  \<open>2022-Q2\<close>, \<open>2022-Q1\<close> and \<open>2022-Q4\<close>.
\<close>

theorem quarter_key_assignment:
  assumes "group_contributions_by_quarter c = Inr g"
    and "it \<in> set (section_of tn c)"
    and "date_str_of it = Some s"
    and "strptime s = Inr d"
  shows "(\<forall>g0. group_item tn g0 it =
            Inr (update_bucket (str_nat (year d) @ ''-Q'' @ str_nat ((month d - 1) div 3 + 1))
                   (append_to tn it)
                   (if str_nat (year d) @ ''-Q'' @ str_nat ((month d - 1) div 3 + 1) \<notin> fst ` set g0
                    then g0 @ [(str_nat (year d) @ ''-Q'' @ str_nat ((month d - 1) div 3 + 1),
                                empty_contributions)]
                    else g0))) \<and>
         (\<exists>b. (str_nat (year d) @ ''-Q'' @ str_nat ((month d - 1) div 3 + 1), b) \<in> set g \<and>
              it \<in> set (section_of tn b)) \<and>
         (\<forall>k b. (k, b) \<in> set g \<and> it \<in> set (section_of tn b) \<longrightarrow>
              k = str_nat (year d) @ ''-Q'' @ str_nat ((month d - 1) div 3 + 1)) \<and>
         map_sum id key_of (strptime ''2022-04-15T00:00:00Z'') = Inr ''2022-Q2'' \<and>
         map_sum id key_of (strptime ''2022-01-01T00:00:00Z'') = Inr ''2022-Q1'' \<and>
         map_sum id key_of (strptime ''2022-12-31T23:59:59Z'') = Inr ''2022-Q4''"
proof -
  let ?key = "str_nat (year d) @ ''-Q'' @ str_nat ((month d - 1) div 3 + 1)"
  have ne: "s \<noteq> []" using assms(4) strptime_Nil by auto
  have 0: "\<forall>g0. group_item tn g0 it =
            Inr (update_bucket ?key (append_to tn it)
                   (if ?key \<notin> fst ` set g0 then g0 @ [(?key, empty_contributions)] else g0))"
    using ne assms(3,4) by (simp add: group_item_def key_of_def quarter_of_def Let_def)
  have key: "item_key it = Some ?key"
    using ne assms(3,4) by (simp add: item_key_def key_of_def quarter_of_def)
  then have "?key \<in> fst ` set g"
    unfolding grouped_keys(2)[OF assms(1)] using assms(2) by auto
  then obtain b where b: "(?key, b) \<in> set g" by auto
  have "it \<in> set (section_of tn b)"
    unfolding grouped_member[OF assms(1) b] using assms(2) key by simp
  with b have 1: "\<exists>b. (?key, b) \<in> set g \<and> it \<in> set (section_of tn b)" by blast
  have 2: "k = ?key" if "(k, b) \<in> set g" "it \<in> set (section_of tn b)" for k b
    using that(2) key unfolding grouped_member[OF assms(1) that(1)] by simp
  have 3: "map_sum id key_of (strptime ''2022-04-15T00:00:00Z'') = Inr ''2022-Q2''"
    by code_simp
  have 4: "map_sum id key_of (strptime ''2022-01-01T00:00:00Z'') = Inr ''2022-Q1''"
    by code_simp
  have 5: "map_sum id key_of (strptime ''2022-12-31T23:59:59Z'') = Inr ''2022-Q4''"
    by code_simp
  from 0 1 2 3 4 5 show ?thesis by blast
qed

theorem quarter_key_assignment_witness:
  "group_contributions_by_quarter (sample_set [sample_item (Some ''2022-04-15T00:00:00Z'')])
     = Inr [(''2022-Q2'', sample_set [sample_item (Some ''2022-04-15T00:00:00Z'')])] \<and>
   strptime ''2022-04-15T00:00:00Z''
     = Inr \<lparr>year = 2022, month = 4, day = 15, hour = 0, minute = 0, second = 0\<rparr> \<and>
   (\<exists>b. (str_nat (year \<lparr>year = 2022, month = 4, day = 15, hour = 0, minute = 0, second = 0\<rparr>)
           @ ''-Q''
           @ str_nat ((month \<lparr>year = 2022, month = 4, day = 15, hour = 0, minute = 0, second = 0\<rparr>
                       - 1) div 3 + 1), b)
           \<in> set [(''2022-Q2'', sample_set [sample_item (Some ''2022-04-15T00:00:00Z'')])] \<and>
        sample_item (Some ''2022-04-15T00:00:00Z'') \<in> set (section_of PullRequests b))"
proof -
  let ?it = "sample_item (Some ''2022-04-15T00:00:00Z'')"
  let ?d = "\<lparr>year = 2022, month = 4, day = 15, hour = 0, minute = 0, second = 0\<rparr>"
  have g: "group_contributions_by_quarter (sample_set [?it]) = Inr [(''2022-Q2'', sample_set [?it])]"
    by code_simp
  have i: "?it \<in> set (section_of PullRequests (sample_set [?it]))"
    by (simp add: sample_set_def)
  have s: "date_str_of ?it = Some ''2022-04-15T00:00:00Z''"
    by code_simp
  have p: "strptime ''2022-04-15T00:00:00Z'' = Inr ?d"
    by code_simp
  note r = quarter_key_assignment[OF g i s p, THEN conjunct2, THEN conjunct1]
  show ?thesis
    by (intro conjI) (rule g, rule p, rule r)
qed

text \<open>
  Claim C8: every bucket of a grouping result holds a record in some category, so the test
  of line 161 succeeds on it and \<open>write_markdown_files\<close> does not take the branch that
  skips and reports an empty quarter.
\<close>

theorem grouped_buckets_nonempty:
  assumes "group_contributions_by_quarter c = Inr g" and "(k, b) \<in> set g"
  shows "has_data b \<and>
         (\<forall>w :: 's world. write_quarter (k, b) w \<noteq> Inr (print (''Skipping empty quarter: '' @ k) w))"
proof -
  have "k \<in> fst ` set g" using assms(2) by force
  then obtain tn it where it: "it \<in> set (section_of tn c)" "item_key it = Some k"
    unfolding grouped_keys(2)[OF assms(1)] by auto
  then have "it \<in> set (section_of tn b)"
    unfolding grouped_member[OF assms] by simp
  then have "section_of tn b \<noteq> []" by auto
  then have hd: "has_data b" unfolding has_data_iff by blast
  have "write_quarter (k, b) w \<noteq> Inr (print (''Skipping empty quarter: '' @ k) w)" for w :: "'s world"
  proof
    assume eq: "write_quarter (k, b) w = Inr (print (''Skipping empty quarter: '' @ k) w)"
    from write_quarter_stdout[OF hd eq] show False by (simp add: print_def)
  qed
  with hd show ?thesis by blast
qed

theorem grouped_buckets_nonempty_witness:
  "group_contributions_by_quarter (sample_set [sample_item (Some ''2022-04-15T00:00:00Z'')])
     = Inr [(''2022-Q2'', sample_set [sample_item (Some ''2022-04-15T00:00:00Z'')])] \<and>
   has_data (sample_set [sample_item (Some ''2022-04-15T00:00:00Z'')]) \<and>
   (\<forall>w :: unit world.
      write_quarter (''2022-Q2'', sample_set [sample_item (Some ''2022-04-15T00:00:00Z'')]) w
        \<noteq> Inr (print (''Skipping empty quarter: '' @ ''2022-Q2'') w))"
proof -
  let ?b = "sample_set [sample_item (Some ''2022-04-15T00:00:00Z'')]"
  have g: "group_contributions_by_quarter ?b = Inr [(''2022-Q2'', ?b)]"
    by code_simp
  have m: "(''2022-Q2'', ?b) \<in> set [(''2022-Q2'', ?b)]"
    by simp
  from grouped_buckets_nonempty[OF g m] g show ?thesis
    by blast
qed

text \<open>
  Claim C10, as the code has it. Whenever grouping returns, the keys of the result are
  distinct, every record with a parseable timestamp is in the bucket of its key, the list
  of a category in the bucket of key \<open>k\<close> is the input list of the same category
  restricted to the records of key \<open>k\<close> (unchanged, in order), and the multiset union over
  the buckets of a category's lists is the multiset of the input records of that category
  that have a parseable timestamp.
\<close>

theorem grouping_preserves_records:
  assumes "group_contributions_by_quarter c = Inr g"
  shows "distinct (map fst g) \<and>
         (\<forall>tn. \<forall>it \<in> set (section_of tn c). \<forall>k. item_key it = Some k \<longrightarrow>
              (\<exists>b. (k, b) \<in> set g \<and> it \<in> set (section_of tn b))) \<and>
         (\<forall>(k, b) \<in> set g. \<forall>tn.
              section_of tn b = filter (\<lambda>it. item_key it = Some k) (section_of tn c)) \<and>
         (\<forall>tn. (\<Sum>(k, b)\<leftarrow>g. mset (section_of tn b)) =
               mset (filter (\<lambda>it. item_key it \<noteq> None) (section_of tn c)))"
proof -
  note d = grouped_keys(1)[OF assms]
  have m: "section_of tn b = filter (\<lambda>it. item_key it = Some k) (section_of tn c)"
    if "(k, b) \<in> set g" for k b tn
    using grouped_member[OF assms that] .
  have a: "\<exists>b. (k, b) \<in> set g \<and> it \<in> set (section_of tn b)"
    if "it \<in> set (section_of tn c)" "item_key it = Some k" for tn it k
  proof -
    have "k \<in> fst ` set g" unfolding grouped_keys(2)[OF assms] using that by auto
    then obtain b where "(k, b) \<in> set g" by auto
    with that m[OF this, of tn] show ?thesis by auto
  qed
  have s: "(\<Sum>(k, b)\<leftarrow>g. mset (section_of tn b)) =
           mset (filter (\<lambda>it. item_key it \<noteq> None) (section_of tn c))" for tn
  proof -
    have "map (\<lambda>(k, b). mset (section_of tn b)) g =
          map (\<lambda>(k, b). mset (filter (\<lambda>it. item_key it = Some k) (section_of tn c))) g"
      by (rule map_cong) (auto simp: m)
    moreover have "\<forall>it \<in> set (section_of tn c). \<forall>k. item_key it = Some k \<longrightarrow> k \<in> fst ` set g"
      unfolding grouped_keys(2)[OF assms] by auto
    ultimately show ?thesis
      using sum_filter_keys[OF d, of "section_of tn c"] by (simp only:)
  qed
  from d a m s show ?thesis by blast
qed

theorem grouping_preserves_records_witness:
  "group_contributions_by_quarter
     (sample_set [sample_item None, sample_item (Some ''2022-04-15T00:00:00Z'')])
     = Inr [(''2022-Q2'', sample_set [sample_item (Some ''2022-04-15T00:00:00Z'')])] \<and>
   (\<Sum>(k, b)\<leftarrow>[(''2022-Q2'', sample_set [sample_item (Some ''2022-04-15T00:00:00Z'')])].
       mset (section_of PullRequests b))
     = mset (filter (\<lambda>it. item_key it \<noteq> None)
          (section_of PullRequests
             (sample_set [sample_item None, sample_item (Some ''2022-04-15T00:00:00Z'')])))"
proof -
  let ?c = "sample_set [sample_item None, sample_item (Some ''2022-04-15T00:00:00Z'')]"
  let ?g = "[(''2022-Q2'', sample_set [sample_item (Some ''2022-04-15T00:00:00Z'')])]"
  have g: "group_contributions_by_quarter ?c = Inr ?g"
    by code_simp
  from grouping_preserves_records[OF g] g show ?thesis
    by blast
qed

text \<open>
  Claim C10 as stated fails: the first record below has a parseable timestamp, but the
  second one is malformed, grouping raises \<open>ValueError\<close>, and the first record is in no
  bucket.
\<close>

theorem parseable_record_lost_when_grouping_aborts:
  "strptime ''2022-04-15T00:00:00Z''
     = Inr \<lparr>year = 2022, month = 4, day = 15, hour = 0, minute = 0, second = 0\<rparr> \<and>
   group_contributions_by_quarter
     (sample_set [sample_item (Some ''2022-04-15T00:00:00Z''), sample_item (Some ''yesterday'')])
     = Inl ValueError"
  by code_simp

section \<open>Properties of the rendering\<close>













text \<open>
  Claim C4: when the raw description is longer than 100 characters, the rendered one has
  103 characters, the first 100 of the raw description (newlines as spaces) and then
  \<open>...\<close>; otherwise it is the raw description with every newline replaced by a space.
  The description cell of a table row is this rendered description.
\<close>

theorem description_truncation:
  "(length raw > 100 \<longrightarrow>
      length (render_description raw) = 103 \<and>
      drop 100 (render_description raw) = ''...'' \<and>
      take 100 (render_description raw)
        = map (\<lambda>c. if c = newline then CHR '' '' else c) (take 100 raw)) \<and>
   (\<not> length raw > 100 \<longrightarrow>
      render_description raw = map (\<lambda>c. if c = newline then CHR '' '' else c) raw) \<and>
   (\<forall>row. render_row it = Inr row \<longrightarrow>
      (\<exists>d. row = ''| '' @ repo it @ '' | ['' @ title it @ '']('' @ url it @ '') | ''
                 @ render_description (description it) @ '' | '' @ strftime_ymd d
                 @ '' |'' @ [newline]))"
proof (intro conjI impI allI)
  assume "length raw > 100"
  then show "length (render_description raw) = 103"
    by (simp add: render_description_def Let_def)
next
  assume "length raw > 100"
  then show "drop 100 (render_description raw) = ''...''"
    by (simp add: render_description_def Let_def)
next
  assume "length raw > 100"
  then show "take 100 (render_description raw)
        = map (\<lambda>c. if c = newline then CHR '' '' else c) (take 100 raw)"
    by (simp add: render_description_def Let_def take_map)
next
  assume "\<not> length raw > 100"
  then show "render_description raw = map (\<lambda>c. if c = newline then CHR '' '' else c) raw"
    by (simp add: render_description_def Let_def)
next
  fix row assume "render_row it = Inr row"
  then show "\<exists>d. row = ''| '' @ repo it @ '' | ['' @ title it @ '']('' @ url it @ '') | ''
                 @ render_description (description it) @ '' | '' @ strftime_ymd d
                 @ '' |'' @ [newline]"
    by (auto simp: render_row_def split: option.splits sum.splits)
qed

theorem description_truncation_witness:
  "length (render_description (replicate 101 CHR ''x'')) = 103 \<and>
   drop 100 (render_description (replicate 101 CHR ''x'')) = ''...'' \<and>
   render_description [CHR ''a'', newline, CHR ''b''] = ''a b''"
proof -
  have long: "length (replicate 101 CHR ''x'') > 100" by simp
  have short: "\<not> length [CHR ''a'', newline, CHR ''b''] > 100" by simp
  have nl: "newline \<noteq> CHR ''a''" "newline \<noteq> CHR ''b''" by (simp_all add: newline_def)
  note l = description_truncation[of "replicate 101 CHR ''x''", THEN conjunct1, THEN mp, OF long]
  note s = description_truncation[of "[CHR ''a'', newline, CHR ''b'']", THEN conjunct2, THEN conjunct1, THEN mp, OF short]
  have s': "render_description [CHR ''a'', newline, CHR ''b''] = ''a b''"
    using s nl by simp
  from l s' show ?thesis by simp
qed











section \<open>Properties of the fetching\<close>

lemma loop_403:
  assumes "http_get e (server w) (search_url query p) = (Inr r, s')" and "status_code r = 403"
  shows "get_all_pages_loop e query p results w =
         get_all_pages_loop e query p results
           (w\<lparr>server := s', requests := requests w @ [search_url query p],
              stdout := stdout w @ [''Rate limit hit. Waiting for 60 seconds...''],
              slept := slept w + 60\<rparr>)"
  using assms
  by (subst get_all_pages_loop.simps)
     (simp add: session_get_def raises_for_status_def sleep_def print_def)

lemma loop_http_error:
  assumes "http_get e (server w) (search_url query p) = (Inr r, s')"
    and "raises_for_status r" and "status_code r \<noteq> 403"
  shows "get_all_pages_loop e query p results w = Some (Inl (HTTPError (status_code r)))"
  using assms
  by (subst get_all_pages_loop.simps) (simp add: session_get_def)

lemma loop_next:
  assumes "http_get e (server w) (search_url query p) = (Inr r, s')"
    and "successful r" and "links_next r"
  shows "get_all_pages_loop e query p results w =
         get_all_pages_loop e query (p + 1) (results @ items_of r)
           (w\<lparr>server := s', requests := requests w @ [search_url query p]\<rparr>)"
  using assms
  by (subst get_all_pages_loop.simps)
     (auto simp: session_get_def successful_def items_of_def split: payload.splits)

lemma loop_last:
  assumes "http_get e (server w) (search_url query p) = (Inr r, s')"
    and "successful r" and "\<not> links_next r"
  shows "get_all_pages_loop e query p results w =
         Some (Inr (results @ items_of r,
                    w\<lparr>server := s', requests := requests w @ [search_url query p]\<rparr>))"
  using assms
  by (subst get_all_pages_loop.simps)
     (auto simp: session_get_def successful_def items_of_def split: payload.splits)

lemma successful_not_403: "successful r \<Longrightarrow> status_code r \<noteq> 403"
  by (auto simp: successful_def raises_for_status_def)

lemma loop_trace:
  assumes "page_trace e query (server w) p (rs @ [r]) s_end"
    and "\<forall>x \<in> set rs. status_code x = 403 \<or> (successful x \<and> links_next x)"
    and "successful r" and "\<not> links_next r"
  shows "get_all_pages_loop e query p results w =
         Some (Inr (results @ concat (map items_of (filter (\<lambda>x. status_code x \<noteq> 403) (rs @ [r]))),
                    w\<lparr>server := s_end,
                      requests := requests w @ map (search_url query) (pages_requested p (rs @ [r])),
                      stdout := stdout w @ replicate (length (filter (\<lambda>x. status_code x = 403) rs))
                                             ''Rate limit hit. Waiting for 60 seconds...'',
                      slept := slept w + 60 * length (filter (\<lambda>x. status_code x = 403) rs)\<rparr>))"
  using assms(1,2)
proof (induction rs arbitrary: p results w)
  case Nil
  then have "http_get e (server w) (search_url query p) = (Inr r, s_end)"
    by (auto split: prod.splits sum.splits)
  from loop_last[OF this assms(3,4)] successful_not_403[OF assms(3)] show ?case
    by simp
next
  case (Cons x rs)
  from Cons.prems(1) obtain s' where
    get: "http_get e (server w) (search_url query p) = (Inr x, s')"
    and rest: "page_trace e query s' (if status_code x = 403 then p else p + 1) (rs @ [r]) s_end"
    by (auto split: prod.splits sum.splits)
  from Cons.prems(2) have all: "\<forall>x \<in> set rs. status_code x = 403 \<or> (successful x \<and> links_next x)"
    by simp
  show ?case
  proof (cases "status_code x = 403")
    case True
    let ?w = "w\<lparr>server := s', requests := requests w @ [search_url query p],
              stdout := stdout w @ [''Rate limit hit. Waiting for 60 seconds...''],
              slept := slept w + 60\<rparr>"
    have "page_trace e query (server ?w) p (rs @ [r]) s_end" using rest True by simp
    from Cons.IH[OF this all, of results] loop_403[OF get True, of results] True
    show ?thesis by (simp add: add.assoc)
  next
    case False
    with Cons.prems(2) have ok: "successful x" "links_next x" by auto
    let ?w = "w\<lparr>server := s', requests := requests w @ [search_url query p]\<rparr>"
    have "page_trace e query (server ?w) (p + 1) (rs @ [r]) s_end" using rest False by simp
    from Cons.IH[OF this all, of "results @ items_of x"] loop_next[OF get ok, of results] False
    show ?thesis by simp
  qed
qed


lemma loop_trace_error:
  assumes "page_trace e query (server w) p (rs @ [r]) s_end"
    and "\<forall>x \<in> set rs. status_code x = 403 \<or> (successful x \<and> links_next x)"
    and "raises_for_status r" and "status_code r \<noteq> 403"
  shows "get_all_pages_loop e query p results w = Some (Inl (HTTPError (status_code r)))"
  using assms(1,2)
proof (induction rs arbitrary: p results w)
  case Nil
  then have "http_get e (server w) (search_url query p) = (Inr r, s_end)"
    by (auto split: prod.splits sum.splits)
  from loop_http_error[OF this assms(3,4)] show ?case .
next
  case (Cons x rs)
  from Cons.prems(1) obtain s' where
    get: "http_get e (server w) (search_url query p) = (Inr x, s')"
    and rest: "page_trace e query s' (if status_code x = 403 then p else p + 1) (rs @ [r]) s_end"
    by (auto split: prod.splits sum.splits)
  from Cons.prems(2) have all: "\<forall>x \<in> set rs. status_code x = 403 \<or> (successful x \<and> links_next x)"
    by simp
  show ?case
  proof (cases "status_code x = 403")
    case True
    let ?w = "w\<lparr>server := s', requests := requests w @ [search_url query p],
              stdout := stdout w @ [''Rate limit hit. Waiting for 60 seconds...''],
              slept := slept w + 60\<rparr>"
    have "page_trace e query (server ?w) p (rs @ [r]) s_end" using rest True by simp
    from Cons.IH[OF this all, of results] loop_403[OF get True, of results]
    show ?thesis by simp
  next
    case False
    with Cons.prems(2) have ok: "successful x" "links_next x" by auto
    let ?w = "w\<lparr>server := s', requests := requests w @ [search_url query p]\<rparr>"
    have "page_trace e query (server ?w) (p + 1) (rs @ [r]) s_end" using rest False by simp
    from Cons.IH[OF this all, of "results @ items_of x"] loop_next[OF get ok, of results]
    show ?thesis by simp
  qed
qed

lemma pages_requested_successful:
  "\<forall>x \<in> set rs. status_code x \<noteq> 403 \<Longrightarrow> pages_requested p rs = [p ..< p + length rs]"
proof (induction rs arbitrary: p)
  case Nil
  show ?case by simp
next
  case (Cons a rs)
  have "[p ..< p + length (a # rs)] = p # [p + 1 ..< p + 1 + length rs]"
    using upt_conv_Cons[of p "p + length (a # rs)"] by (simp del: upt_Suc)
  moreover have "pages_requested (p + 1) rs = [p + 1 ..< p + 1 + length rs]"
    using Cons.IH[of "p + 1"] Cons.prems by simp
  ultimately show ?case using Cons.prems by (simp del: upt_Suc)
qed

lemma pages_requested_denied:
  "\<forall>x \<in> set rs. status_code x = 403 \<Longrightarrow> pages_requested p (rs @ [r]) = replicate (length rs + 1) p"
  by (induction rs arbitrary: p) auto

lemma loop_never_returns_aux:
  assumes "get_all_pages_loop e query p results w = Some y"
  shows "(\<forall>s. \<exists>r s'. http_get e s (search_url query p) = (Inr r, s') \<and> status_code r = 403)
         \<longrightarrow> False"
proof (rule get_all_pages_loop.raw_induct
    [where P = "\<lambda>e query p results w y.
       (\<forall>s. \<exists>r s'. http_get e s (search_url query p) = (Inr r, s') \<and> status_code r = 403)
         \<longrightarrow> False", OF _ assms])
  fix loop :: "'a env \<Rightarrow> string \<Rightarrow> nat \<Rightarrow> raw_item list \<Rightarrow> 'a world
               \<Rightarrow> (error + raw_item list \<times> 'a world) option"
    and e query p results w y
  assume IH: "\<And>e query p results w y. loop e query p results w = Some y \<Longrightarrow>
      (\<forall>s. \<exists>r s'. http_get e s (search_url query p) = (Inr r, s') \<and> status_code r = 403)
         \<longrightarrow> False"
    and unfolded: "(case session_get e (search_url query p) w of
        (Inl err, w') \<Rightarrow> Some (Inl err)
      | (Inr r, w') \<Rightarrow>
          if raises_for_status r then
            (if status_code r = 403
             then loop e query p results
                    (sleep 60 (print ''Rate limit hit. Waiting for 60 seconds...'' w'))
             else Some (Inl (HTTPError (status_code r))))
          else (case json r of
                  NoJSON \<Rightarrow> Some (Inl JSONDecodeError)
                | PullData d \<Rightarrow> Some (Inl KeyError)
                | Items its \<Rightarrow>
                    if links_next r
                    then loop e query (p + 1) (results @ its) w'
                    else Some (Inr (results @ its, w')))) = Some y"
  show "(\<forall>s. \<exists>r s'. http_get e s (search_url query p) = (Inr r, s') \<and> status_code r = 403)
         \<longrightarrow> False"
  proof
    assume always: "\<forall>s. \<exists>r s'. http_get e s (search_url query p) = (Inr r, s') \<and> status_code r = 403"
    then obtain r s' where g: "http_get e (server w) (search_url query p) = (Inr r, s')"
      and st: "status_code r = 403" by blast
    let ?w = "sleep 60 (print ''Rate limit hit. Waiting for 60 seconds...''
           (w\<lparr>server := s', requests := requests w @ [search_url query p]\<rparr>))"
    from unfolded g st have a: "loop e query p results ?w = Some y"
      by (simp add: session_get_def raises_for_status_def)
    from IH[OF a] always show False by blast
  qed
qed

lemma loop_never_returns:
  assumes "\<forall>s. \<exists>r s'. http_get e s (search_url query p) = (Inr r, s') \<and> status_code r = 403"
  shows "get_all_pages_loop e query p results w = None"
proof (cases "get_all_pages_loop e query p results w")
  case None
  then show ?thesis .
next
  case (Some y)
  from loop_never_returns_aux[OF Some] assms show ?thesis by blast
qed

lemma and_then_assoc:
  "and_then (and_then m f) g = and_then m (\<lambda>x. and_then (f x) g)"
  by (auto simp: and_then_def split: option.splits sum.splits)

lemma fetch_years_append:
  "fetch_years e (ys1 @ ys2) cw = and_then (fetch_years e ys1 cw) (fetch_years e ys2)"
proof (induction ys1 arbitrary: cw)
  case Nil
  show ?case by (simp add: and_then_def)
next
  case (Cons y ys1)
  have "fetch_years e (ys1 @ ys2) = (\<lambda>x. and_then (fetch_years e ys1 x) (fetch_years e ys2))"
    by (rule ext) (rule Cons.IH)
  then show ?case by (simp add: and_then_assoc)
qed

lemma fetch_year_search_error:
  assumes "search_started e y cw q w0" and "get_all_pages e q w0 = Some (Inl err)"
  shows "fetch_year e y cw = Some (Inl err)"
  using assms
  by (induction rule: search_started.induct) (simp_all add: fetch_year_def and_then_def)

lemma run_aborts:
  assumes "truthy (GITHUB_TOKEN e)"
    and "[SINCE_YEAR ..< current_year e + 1] = ys1 @ y # ys2"
    and "fetch_years e ys1 (empty_contributions, w) = Some (Inr cw1)"
    and "fetch_year e y cw1 = Some (Inl err)"
  shows "main e w = Some (Exit1 err)"
proof -
  have "fetch_years e (ys1 @ y # ys2) (empty_contributions, w) = Some (Inl err)"
    unfolding fetch_years_append using assms(3,4) by (simp add: and_then_def)
  then have "fetch_contributions e w = Some (Inl err)"
    using assms(1,2) by (simp add: fetch_contributions_def)
  then show ?thesis by (simp add: main_def)
qed

lemma fetch_pull_step:
  assumes "2 \<le> length (split_chr CHR ''/'' (urlparse_path e (repository_url pr)))"
    and "http_get e (server w) (detail_url e pr) = (Inr r, s')"
    and "status_code r = 200 \<longrightarrow> (\<exists>d. json r = PullData d)"
  shows "fetch_pull e pr (c, w) =
         Inr (c\<lparr>pullRequests := pullRequests c @ kept_pull e (pr, r)\<rparr>,
              w\<lparr>server := s', requests := requests w @ [detail_url e pr],
                stdout := stdout w @ skipped_line (pr, r)\<rparr>)"
proof (cases "status_code r = 200")
  case True
  with assms(3) obtain d where d: "json r = PullData d" by blast
  show ?thesis
    using assms(1,2) True d
    by (simp add: fetch_pull_def detail_url_def Let_def session_get_def kept_pull_def
        skipped_line_def repo_of_def)
next
  case False
  show ?thesis
    using assms(1,2) False
    by (simp add: fetch_pull_def detail_url_def Let_def session_get_def kept_pull_def
        skipped_line_def print_def)
qed

lemma fetch_pulls_trace:
  assumes "detail_trace e (server w) prs rs s_end"
    and "\<forall>pr \<in> set prs. 2 \<le> length (split_chr CHR ''/'' (urlparse_path e (repository_url pr)))"
    and "\<forall>r \<in> set rs. status_code r = 200 \<longrightarrow> (\<exists>d. json r = PullData d)"
  shows "fetch_pulls e prs (c, w) =
         Inr (c\<lparr>pullRequests := pullRequests c @ concat (map (kept_pull e) (zip prs rs))\<rparr>,
              w\<lparr>server := s_end, requests := requests w @ map (detail_url e) prs,
                stdout := stdout w @ concat (map skipped_line (zip prs rs))\<rparr>)"
  using assms
proof (induction prs arbitrary: rs c w)
  case Nil
  then show ?case by simp
next
  case (Cons pr prs)
  from Cons.prems(1) obtain r rs' where rs: "rs = r # rs'"
    by (cases rs) auto
  from Cons.prems(1) obtain s' where
    get: "http_get e (server w) (detail_url e pr) = (Inr r, s')"
    and rest: "detail_trace e s' prs rs' s_end"
    unfolding rs by (auto split: prod.splits sum.splits)
  have p2: "2 \<le> length (split_chr CHR ''/'' (urlparse_path e (repository_url pr)))"
    using Cons.prems(2) by simp
  have ok: "status_code r = 200 \<longrightarrow> (\<exists>d. json r = PullData d)"
    using Cons.prems(3) unfolding rs by simp
  let ?c = "c\<lparr>pullRequests := pullRequests c @ kept_pull e (pr, r)\<rparr>"
  let ?w = "w\<lparr>server := s', requests := requests w @ [detail_url e pr],
                stdout := stdout w @ skipped_line (pr, r)\<rparr>"
  have step: "fetch_pull e pr (c, w) = Inr (?c, ?w)"
    by (rule fetch_pull_step[OF p2 get ok])
  have "detail_trace e (server ?w) prs rs' s_end" using rest by simp
  from Cons.IH[OF this, of ?c] Cons.prems(2,3)
  have "fetch_pulls e prs (?c, ?w) =
         Inr (?c\<lparr>pullRequests := pullRequests ?c @ concat (map (kept_pull e) (zip prs rs'))\<rparr>,
              ?w\<lparr>server := s_end, requests := requests ?w @ map (detail_url e) prs,
                stdout := stdout ?w @ concat (map skipped_line (zip prs rs'))\<rparr>)"
    unfolding rs by simp
  then show ?case unfolding rs using step by simp
qed

lemma fetch_year_result:
  assumes "get_all_pages e (merged_query y)
             (print (''Fetching contributions for year: '' @ str_nat y @ ''...'') w) = Some (Inr (prs, w1))"
    and "fetch_pulls e prs (c, w1) = Inr (c1, w2)"
    and "get_all_pages e (issues_query y) w2 = Some (Inr (found_issues, w3))"
    and "get_all_pages e (reviewed_query y) w3 = Some (Inr (reviewed_prs, w4))"
    and "get_all_pages e (triaged_query y) w4 = Some (Inr (triaged_issues, w5))"
  shows "fetch_year e y (c, w) =
         Some (Inr (c1\<lparr>issues := issues c1 @ map (issue_record e) found_issues,
                       reviewedPrs := reviewedPrs c1 @ map (reviewed_record e) reviewed_prs,
                       triagedIssues := triagedIssues c1 @ map (triaged_record e) triaged_issues\<rparr>,
                    w5))"
  using assms by (simp add: fetch_year_def and_then_def)

lemma run_completes:
  assumes "truthy (GITHUB_TOKEN e)"
    and "[SINCE_YEAR ..< current_year e + 1] = ys1 @ y # ys2"
    and "fetch_years e ys1 (empty_contributions, w) = Some (Inr cw1)"
    and "fetch_year e y cw1 = Some (Inr cw2)"
    and "fetch_years e ys2 cw2 = Some (Inr cw3)"
  shows "fetch_contributions e w = Some (Inr cw3)"
proof -
  have "fetch_years e (ys1 @ y # ys2) (empty_contributions, w) = Some (Inr cw3)"
    unfolding fetch_years_append using assms(3,4,5) by (simp add: and_then_def)
  then show ?thesis
    using assms(1,2) by (simp add: fetch_contributions_def)
qed

lemma detail_trace_length: "detail_trace e s prs rs s_end \<Longrightarrow> length rs = length prs"
proof (induction prs arbitrary: rs s)
  case Nil
  then show ?case by simp
next
  case (Cons pr prs)
  then obtain r rs' where rs: "rs = r # rs'" by (cases rs) auto
  with Cons.prems obtain s' where "detail_trace e s' prs rs' s_end"
    by (auto split: prod.splits sum.splits)
  from Cons.IH[OF this] show ?case unfolding rs by simp
qed

lemma successful_page: "successful (page_response 200 its nxt)"
  by (simp add: successful_def raises_for_status_def page_response_def)

text \<open>
  Claim C1: when the search endpoint answers the requests for pages 1, 2, ... with
  successful pages, all but the last of which declare a next page, \<open>get_all_pages\<close>
  returns the concatenation of their items in order, so the number of results is the sum
  of the page sizes, and it has requested exactly these pages: it stops after the first
  response without a next link.
\<close>

theorem pages_concatenated:
  assumes "pages \<noteq> []"
    and "page_trace e query (server w) 1 pages s_end"
    and "\<forall>x \<in> set pages. successful x"
    and "\<forall>x \<in> set (butlast pages). links_next x"
    and "\<not> links_next (last pages)"
  shows "get_all_pages e query w =
           Some (Inr (concat (map items_of pages),
                      w\<lparr>server := s_end,
                        requests := requests w @ map (search_url query) [1 ..< length pages + 1]\<rparr>)) \<and>
         length (concat (map items_of pages)) = sum_list (map (\<lambda>x. length (items_of x)) pages)"
proof -
  from assms(1) obtain rs r where pages: "pages = rs @ [r]"
    by (cases pages rule: rev_cases) auto
  have no403: "\<forall>x \<in> set (rs @ [r]). status_code x \<noteq> 403"
    using assms(3) successful_not_403 unfolding pages by blast
  have cont: "\<forall>x \<in> set rs. status_code x = 403 \<or> (successful x \<and> links_next x)"
    using assms(3,4) unfolding pages by simp
  have f1: "filter (\<lambda>x. status_code x \<noteq> 403) (rs @ [r]) = rs @ [r]"
    using no403 by (simp only: filter_True)
  have f2: "filter (\<lambda>x. status_code x = 403) rs = []"
    using no403 by (simp add: filter_empty_conv)
  have pr: "pages_requested 1 (rs @ [r]) = [1 ..< length (rs @ [r]) + 1]"
    using pages_requested_successful[OF no403, of 1] by (simp add: add.commute)
  have "get_all_pages_loop e query 1 [] w =
           Some (Inr (concat (map items_of (rs @ [r])),
                      w\<lparr>server := s_end,
                        requests := requests w @ map (search_url query) [1 ..< length (rs @ [r]) + 1]\<rparr>))"
    using loop_trace[of e query w 1 rs r s_end "[]"] assms(2,3,5) cont
    unfolding pages f1 f2 pr by simp
  moreover have "length (concat (map items_of pages)) = sum_list (map (\<lambda>x. length (items_of x)) pages)"
    by (simp add: length_concat comp_def)
  ultimately show ?thesis
    unfolding get_all_pages_def pages by simp
qed

theorem pages_concatenated_witness:
  "get_all_pages (sample_env sample_pages) ''is:pr'' sample_world =
     Some (Inr (concat (map items_of (map snd sample_pages)),
                sample_world\<lparr>server := 2,
                  requests := requests sample_world
                    @ map (search_url ''is:pr'') [1 ..< length (map snd sample_pages) + 1]\<rparr>)) \<and>
   length (concat (map items_of (map snd sample_pages))) = 3"
proof -
  have ne: "map snd sample_pages \<noteq> []"
    by code_simp
  have t: "page_trace (sample_env sample_pages) ''is:pr'' (server sample_world) 1
             (map snd sample_pages) 2"
    by code_simp
  have s: "\<forall>x \<in> set (map snd sample_pages). successful x"
    by code_simp
  have n: "\<forall>x \<in> set (butlast (map snd sample_pages)). links_next x"
    by code_simp
  have l: "\<not> links_next (last (map snd sample_pages))"
    by code_simp
  have c: "sum_list (map (\<lambda>x. length (items_of x)) (map snd sample_pages)) = 3"
    by code_simp
  note r = pages_concatenated[OF ne t s n l]
  show ?thesis
    using r[THEN conjunct1] r[THEN conjunct2] c by (simp only: simp_thms)
qed

text \<open>
  Claim C2: a 403 makes the loop print, sleep 60 seconds and run again on the same page
  with the same accumulator, whatever the number of earlier retries; any number of 403
  answers followed by a successful last page gives that page's items once, after that
  many sleeps of 60 seconds and requests of the same URL only; any other status in
  400..599 leaves the loop as an \<open>HTTPError\<close>, and when this happens in any search of
  any year of the run (the earlier years and the earlier steps of the year having
  completed), \<open>main\<close> exits with code 1. There is no retry ceiling: against an API that
  answers this page with 403 in every state, the loop never returns.
\<close>

theorem rate_limit_retry:
  "(\<forall>r s'. http_get e (server w) (search_url query p) = (Inr r, s') \<and> status_code r = 403 \<longrightarrow>
      get_all_pages_loop e query p results w =
      get_all_pages_loop e query p results
        (w\<lparr>server := s', requests := requests w @ [search_url query p],
           stdout := stdout w @ [''Rate limit hit. Waiting for 60 seconds...''],
           slept := slept w + 60\<rparr>)) \<and>
   (\<forall>denied r s_end.
      page_trace e query (server w) p (denied @ [r]) s_end \<and>
      (\<forall>x \<in> set denied. status_code x = 403) \<and> successful r \<and> \<not> links_next r \<longrightarrow>
      get_all_pages_loop e query p results w =
      Some (Inr (results @ items_of r,
                 w\<lparr>server := s_end,
                   requests := requests w @ replicate (length denied + 1) (search_url query p),
                   stdout := stdout w @ replicate (length denied)
                                          ''Rate limit hit. Waiting for 60 seconds...'',
                   slept := slept w + 60 * length denied\<rparr>))) \<and>
   (\<forall>rs r s_end.
      page_trace e query (server w) p (rs @ [r]) s_end \<and>
      (\<forall>x \<in> set rs. status_code x = 403 \<or> (successful x \<and> links_next x)) \<and>
      raises_for_status r \<and> status_code r \<noteq> 403 \<longrightarrow>
      get_all_pages_loop e query p results w = Some (Inl (HTTPError (status_code r)))) \<and>
   (\<forall>ys1 y ys2 cw1 q w0 rs r s_end.
      truthy (GITHUB_TOKEN e) \<and>
      [SINCE_YEAR ..< current_year e + 1] = ys1 @ y # ys2 \<and>
      fetch_years e ys1 (empty_contributions, w) = Some (Inr cw1) \<and>
      search_started e y cw1 q w0 \<and>
      page_trace e q (server w0) 1 (rs @ [r]) s_end \<and>
      (\<forall>x \<in> set rs. status_code x = 403 \<or> (successful x \<and> links_next x)) \<and>
      raises_for_status r \<and> status_code r \<noteq> 403 \<longrightarrow>
      main e w = Some (Exit1 (HTTPError (status_code r)))) \<and>
   ((\<forall>s. \<exists>r s'. http_get e s (search_url query p) = (Inr r, s') \<and> status_code r = 403) \<longrightarrow>
      get_all_pages_loop e query p results w = None)"
proof (intro conjI allI impI)
  fix r s'
  assume a: "http_get e (server w) (search_url query p) = (Inr r, s') \<and> status_code r = 403"
  show "get_all_pages_loop e query p results w =
      get_all_pages_loop e query p results
        (w\<lparr>server := s', requests := requests w @ [search_url query p],
           stdout := stdout w @ [''Rate limit hit. Waiting for 60 seconds...''],
           slept := slept w + 60\<rparr>)"
    by (rule loop_403[OF a[THEN conjunct1] a[THEN conjunct2]])
next
  fix denied r s_end
  assume a: "page_trace e query (server w) p (denied @ [r]) s_end \<and>
      (\<forall>x \<in> set denied. status_code x = 403) \<and> successful r \<and> \<not> links_next r"
  then have d: "\<forall>x \<in> set denied. status_code x = 403" by blast
  have f1: "filter (\<lambda>x. status_code x \<noteq> 403) (denied @ [r]) = [r]"
    using d successful_not_403[of r] a by (simp add: filter_empty_conv)
  have f2: "filter (\<lambda>x. status_code x = 403) denied = denied"
    using d by (simp only: filter_True)
  from a have cont: "\<forall>x \<in> set denied. status_code x = 403 \<or> (successful x \<and> links_next x)"
    by blast
  show "get_all_pages_loop e query p results w =
      Some (Inr (results @ items_of r,
                 w\<lparr>server := s_end,
                   requests := requests w @ replicate (length denied + 1) (search_url query p),
                   stdout := stdout w @ replicate (length denied)
                                          ''Rate limit hit. Waiting for 60 seconds...'',
                   slept := slept w + 60 * length denied\<rparr>))"
    using loop_trace[of e query w p denied r s_end results] a cont
    unfolding f1 f2 pages_requested_denied[OF d] by (simp add: map_replicate)
next
  fix rs r s_end
  assume a: "page_trace e query (server w) p (rs @ [r]) s_end \<and>
      (\<forall>x \<in> set rs. status_code x = 403 \<or> (successful x \<and> links_next x)) \<and>
      raises_for_status r \<and> status_code r \<noteq> 403"
  show "get_all_pages_loop e query p results w = Some (Inl (HTTPError (status_code r)))"
    by (rule loop_trace_error[of e query w p rs r s_end]) (use a in simp_all)
next
  fix ys1 y ys2 cw1 q w0 rs r s_end
  assume a: "truthy (GITHUB_TOKEN e) \<and>
      [SINCE_YEAR ..< current_year e + 1] = ys1 @ y # ys2 \<and>
      fetch_years e ys1 (empty_contributions, w) = Some (Inr cw1) \<and>
      search_started e y cw1 q w0 \<and>
      page_trace e q (server w0) 1 (rs @ [r]) s_end \<and>
      (\<forall>x \<in> set rs. status_code x = 403 \<or> (successful x \<and> links_next x)) \<and>
      raises_for_status r \<and> status_code r \<noteq> 403"
  have "get_all_pages e q w0 = Some (Inl (HTTPError (status_code r)))"
    unfolding get_all_pages_def
    by (rule loop_trace_error[of e q w0 1 rs r s_end]) (use a in simp_all)
  then have "fetch_year e y cw1 = Some (Inl (HTTPError (status_code r)))"
    by (rule fetch_year_search_error[OF a[THEN conjunct2, THEN conjunct2, THEN conjunct2, THEN conjunct1]])
  then show "main e w = Some (Exit1 (HTTPError (status_code r)))"
    by (rule run_aborts[OF a[THEN conjunct1] a[THEN conjunct2, THEN conjunct1]
          a[THEN conjunct2, THEN conjunct2, THEN conjunct1]])
next
  assume "\<forall>s. \<exists>r s'. http_get e s (search_url query p) = (Inr r, s') \<and> status_code r = 403"
  then show "get_all_pages_loop e query p results w = None"
    by (rule loop_never_returns)
qed

theorem rate_limit_retry_witness:
  "get_all_pages_loop (sample_env sample_retry) ''is:pr'' 1 [] sample_world =
     Some (Inr ([] @ items_of (page_response 200 [sample_raw 1 None] False),
                sample_world\<lparr>server := 2,
                  requests := requests sample_world
                    @ replicate (length [\<lparr>status_code = 403, json = NoJSON, links_next = False\<rparr>] + 1)
                        (search_url ''is:pr'' 1),
                  stdout := stdout sample_world
                    @ replicate (length [\<lparr>status_code = 403, json = NoJSON, links_next = False\<rparr>])
                        ''Rate limit hit. Waiting for 60 seconds...'',
                  slept := slept sample_world
                    + 60 * length [\<lparr>status_code = 403, json = NoJSON, links_next = False\<rparr>]\<rparr>)) \<and>
   get_all_pages_loop (sample_env sample_failure) ''is:pr'' 1 [] sample_world =
     Some (Inl (HTTPError (status_code \<lparr>status_code = 500, json = NoJSON, links_next = False\<rparr>))) \<and>
   main (sample_env sample_issue_failure) sample_world =
     Some (Exit1 (HTTPError (status_code \<lparr>status_code = 500, json = NoJSON, links_next = False\<rparr>)))"
proof -
  let ?denied = "[\<lparr>status_code = 403, json = NoJSON, links_next = False\<rparr>]"
  let ?r = "page_response 200 [sample_raw 1 None] False"
  let ?bad = "\<lparr>status_code = 500, json = NoJSON, links_next = False\<rparr>"
  have t: "page_trace (sample_env sample_retry) ''is:pr'' (server sample_world) 1 (?denied @ [?r]) 2"
    by code_simp
  have d: "\<forall>x \<in> set ?denied. status_code x = 403"
    by code_simp
  have s: "successful ?r"
    by code_simp
  have l: "\<not> links_next ?r"
    by code_simp
  have t2: "page_trace (sample_env sample_failure) ''is:pr'' (server sample_world) 1 ([] @ [?bad]) 1"
    by code_simp
  have c2: "\<forall>x \<in> set []. status_code x = 403 \<or> (successful x \<and> links_next x)"
    by simp
  have e1: "raises_for_status ?bad"
    by code_simp
  have e2: "status_code ?bad \<noteq> 403"
    by code_simp
  note a = rate_limit_retry[of "sample_env sample_retry" sample_world "''is:pr''" 1 "[]",
      THEN conjunct2, THEN conjunct1, THEN spec, THEN spec, THEN spec, THEN mp,
      OF conjI[OF t conjI[OF d conjI[OF s l]]]]
  note b = rate_limit_retry[of "sample_env sample_failure" sample_world "''is:pr''" 1 "[]",
      THEN conjunct2, THEN conjunct2, THEN conjunct1, THEN spec, THEN spec, THEN spec, THEN mp,
      OF conjI[OF t2 conjI[OF c2 conjI[OF e1 e2]]]]
  let ?e3 = "sample_env sample_issue_failure"
  let ?bad3 = "\<lparr>status_code = 500, json = NoJSON, links_next = False\<rparr>"
  let ?v0 = "print (''Fetching contributions for year: '' @ str_nat 2019 @ ''...'') sample_world"
  let ?v1 = "?v0\<lparr>server := 1, requests := requests ?v0 @ [search_url (merged_query 2019) 1]\<rparr>"
  have tok3: "truthy (GITHUB_TOKEN ?e3)"
    by (simp add: sample_env_def)
  have yrs3: "[SINCE_YEAR ..< current_year ?e3 + 1] = [] @ 2019 # []"
    by (simp add: sample_env_def SINCE_YEAR_def)
  have before3: "fetch_years ?e3 [] (empty_contributions, sample_world)
      = Some (Inr (empty_contributions, sample_world))"
    by simp
  have g3: "http_get ?e3 (server ?v0) (search_url (merged_query 2019) 1)
             = (Inr (page_response 200 [] False), 1)"
    by (simp add: sample_env_def scripted_def sample_issue_failure_def print_def sample_world_def)
  have ok3: "successful (page_response 200 [] False)" "\<not> links_next (page_response 200 [] False)"
    by (simp_all add: successful_def raises_for_status_def page_response_def)
  have m3: "get_all_pages ?e3 (merged_query 2019) ?v0 = Some (Inr ([], ?v1))"
    unfolding get_all_pages_def using loop_last[OF g3 ok3, of "[]"]
    by (simp add: items_of_def page_response_def)
  have p3: "fetch_pulls ?e3 [] (empty_contributions, ?v1) = Inr (empty_contributions, ?v1)"
    by simp
  have st3: "search_started ?e3 2019 (empty_contributions, sample_world) (issues_query 2019) ?v1"
    by (rule issues_search[OF m3 p3])
  have t3: "page_trace ?e3 (issues_query 2019) (server ?v1) 1 ([] @ [?bad3]) 2"
    by (simp add: sample_env_def scripted_def sample_issue_failure_def)
  have c3: "\<forall>x \<in> set []. status_code x = 403 \<or> (successful x \<and> links_next x)"
    by simp
  have e13: "raises_for_status ?bad3"
    by (simp add: raises_for_status_def)
  have e23: "status_code ?bad3 \<noteq> 403"
    by simp
  note c = rate_limit_retry[of ?e3 sample_world,
      THEN conjunct2, THEN conjunct2, THEN conjunct2, THEN conjunct1,
      THEN spec, THEN spec, THEN spec, THEN spec, THEN spec,
      THEN spec, THEN spec, THEN spec, THEN spec, THEN mp,
      OF conjI[OF tok3 conjI[OF yrs3 conjI[OF before3 conjI[OF st3 conjI[OF t3 conjI[OF c3 conjI[OF e13 e23]]]]]]]]
  show ?thesis
    by (intro conjI) (rule a, rule b, rule c)
qed

text \<open>
  Claim C7: in every year of the run, once the search for merged pull requests has
  returned its items, the collector makes one detail lookup per item, in order; a lookup
  whose status is not 200 adds no record and prints the diagnostic, and collection goes
  on; a lookup with status 200 appends the record built from the detail payload: title,
  canonical URL, repository name, description and merge timestamp. When the other
  searches of the year and the later years complete, \<open>fetch_contributions\<close> returns
  their result, which holds these records.
\<close>

theorem detail_lookup_skips_failures:
  assumes "truthy (GITHUB_TOKEN e)"
    and "[SINCE_YEAR ..< current_year e + 1] = ys1 @ y # ys2"
    and "fetch_years e ys1 (empty_contributions, w) = Some (Inr (c, w0))"
    and "get_all_pages e (merged_query y)
           (print (''Fetching contributions for year: '' @ str_nat y @ ''...'') w0) = Some (Inr (prs, w1))"
    and "detail_trace e (server w1) prs rs s_end"
    and "\<forall>pr \<in> set prs. 2 \<le> length (split_chr CHR ''/'' (urlparse_path e (repository_url pr)))"
    and "\<forall>r \<in> set rs. status_code r = 200 \<longrightarrow> (\<exists>d. json r = PullData d)"
    and "get_all_pages e (issues_query y)
           (w1\<lparr>server := s_end, requests := requests w1 @ map (detail_url e) prs,
               stdout := stdout w1 @ concat (map skipped_line (zip prs rs))\<rparr>)
         = Some (Inr (found_issues, w3))"
    and "get_all_pages e (reviewed_query y) w3 = Some (Inr (reviewed_prs, w4))"
    and "get_all_pages e (triaged_query y) w4 = Some (Inr (triaged_issues, w5))"
    and "fetch_years e ys2
           (c\<lparr>pullRequests := pullRequests c @ concat (map (kept_pull e) (zip prs rs)),
               issues := issues c @ map (issue_record e) found_issues,
               reviewedPrs := reviewedPrs c @ map (reviewed_record e) reviewed_prs,
               triagedIssues := triagedIssues c @ map (triaged_record e) triaged_issues\<rparr>, w5)
         = Some (Inr cw_end)"
  shows "fetch_contributions e w = Some (Inr cw_end) \<and>
         fetch_pulls e prs (c, w1) =
           Inr (c\<lparr>pullRequests := pullRequests c @ concat (map (kept_pull e) (zip prs rs))\<rparr>,
                w1\<lparr>server := s_end, requests := requests w1 @ map (detail_url e) prs,
                  stdout := stdout w1 @ concat (map skipped_line (zip prs rs))\<rparr>) \<and>
         length rs = length prs \<and>
         (\<forall>pr r. status_code r \<noteq> 200 \<longrightarrow>
            kept_pull e (pr, r) = [] \<and>
            skipped_line (pr, r) = [''Could not fetch details for '' @ html_url pr]) \<and>
         (\<forall>pr r d. status_code r = 200 \<and> json r = PullData d \<longrightarrow>
            skipped_line (pr, r) = [] \<and>
            kept_pull e (pr, r) =
              [\<lparr>title = pr_title d, url = pr_html_url d,
                repo = last (split_chr CHR ''/'' (urlparse_path e (repository_url pr))),
                description = or_default (pr_body d) ''No description provided.'',
                merged_at = pr_merged_at d, created_at = None, reviewed_at = None,
                triaged_at = None\<rparr>])"
proof -
  let ?c1 = "c\<lparr>pullRequests := pullRequests c @ concat (map (kept_pull e) (zip prs rs))\<rparr>"
  let ?w2 = "w1\<lparr>server := s_end, requests := requests w1 @ map (detail_url e) prs,
                  stdout := stdout w1 @ concat (map skipped_line (zip prs rs))\<rparr>"
  have pulls: "fetch_pulls e prs (c, w1) = Inr (?c1, ?w2)"
    by (rule fetch_pulls_trace[OF assms(5,6,7)])
  have year: "fetch_year e y (c, w0) =
         Some (Inr (?c1\<lparr>issues := issues ?c1 @ map (issue_record e) found_issues,
                       reviewedPrs := reviewedPrs ?c1 @ map (reviewed_record e) reviewed_prs,
                       triagedIssues := triagedIssues ?c1 @ map (triaged_record e) triaged_issues\<rparr>,
                    w5))"
    by (rule fetch_year_result[OF assms(4) pulls assms(8,9,10)])
  have after: "fetch_years e ys2
           (?c1\<lparr>issues := issues ?c1 @ map (issue_record e) found_issues,
                       reviewedPrs := reviewedPrs ?c1 @ map (reviewed_record e) reviewed_prs,
                       triagedIssues := triagedIssues ?c1 @ map (triaged_record e) triaged_issues\<rparr>, w5)
         = Some (Inr cw_end)"
    using assms(11) by simp
  have run: "fetch_contributions e w = Some (Inr cw_end)"
    by (rule run_completes[OF assms(1,2,3) year after])
  have len: "length rs = length prs"
    by (rule detail_trace_length[OF assms(5)])
  have a: "kept_pull e (pr, r) = [] \<and>
           skipped_line (pr, r) = [''Could not fetch details for '' @ html_url pr]"
    if "status_code r \<noteq> 200" for pr r
    using that by (simp add: kept_pull_def skipped_line_def)
  have b: "skipped_line (pr, r) = [] \<and>
            kept_pull e (pr, r) =
              [\<lparr>title = pr_title d, url = pr_html_url d,
                repo = last (split_chr CHR ''/'' (urlparse_path e (repository_url pr))),
                description = or_default (pr_body d) ''No description provided.'',
                merged_at = pr_merged_at d, created_at = None, reviewed_at = None,
                triaged_at = None\<rparr>]"
    if "status_code r = 200 \<and> json r = PullData d" for pr r d
    using that
    by (simp add: kept_pull_def skipped_line_def pull_record_def repo_of_def placeholder_def)
  from run pulls len a b show ?thesis by blast
qed

theorem detail_lookup_skips_failures_witness:
  "\<exists>cw. fetch_contributions (sample_env sample_run) sample_world = Some (Inr cw) \<and>
        pullRequests (fst cw) = [pull_record ''r'' (sample_pr_data None)] \<and>
        stdout (snd cw) =
          [''Fetching contributions for year: '' @ str_nat 2019 @ ''...'',
           ''Could not fetch details for https://github.com/o/r/pull/1''] \<and>
        requests (snd cw) =
          [search_url (merged_query 2019) 1, pull_url ''o'' ''r'' 1, pull_url ''o'' ''r'' 2,
           search_url (issues_query 2019) 1, search_url (reviewed_query 2019) 1,
           search_url (triaged_query 2019) 1]"
proof -
  let ?e = "sample_env sample_run"
  let ?prs = "[sample_raw 1 None, sample_raw 2 None]"
  let ?rs = "[\<lparr>status_code = 404, json = NoJSON, links_next = False\<rparr>,
              \<lparr>status_code = 200, json = PullData (sample_pr_data None), links_next = False\<rparr>]"
  let ?wp = "print (''Fetching contributions for year: '' @ str_nat 2019 @ ''...'') sample_world"
  let ?w1 = "?wp\<lparr>server := 1, requests := requests ?wp @ [search_url (merged_query 2019) 1]\<rparr>"
  let ?w2 = "?w1\<lparr>server := 3, requests := requests ?w1 @ map (detail_url ?e) ?prs,
                  stdout := stdout ?w1 @ concat (map skipped_line (zip ?prs ?rs))\<rparr>"
  let ?w3 = "?w2\<lparr>server := 4, requests := requests ?w2 @ [search_url (issues_query 2019) 1]\<rparr>"
  let ?w4 = "?w3\<lparr>server := 5, requests := requests ?w3 @ [search_url (reviewed_query 2019) 1]\<rparr>"
  let ?w5 = "?w4\<lparr>server := 6, requests := requests ?w4 @ [search_url (triaged_query 2019) 1]\<rparr>"
  let ?c = "empty_contributions\<lparr>
      pullRequests := pullRequests empty_contributions @ concat (map (kept_pull ?e) (zip ?prs ?rs)),
      issues := issues empty_contributions @ map (issue_record ?e) [],
      reviewedPrs := reviewedPrs empty_contributions @ map (reviewed_record ?e) [],
      triagedIssues := triagedIssues empty_contributions @ map (triaged_record ?e) []\<rparr>"
  have tok: "truthy (GITHUB_TOKEN ?e)"
    by (simp add: sample_env_def)
  have yrs: "[SINCE_YEAR ..< current_year ?e + 1] = [] @ 2019 # []"
    by (simp add: sample_env_def SINCE_YEAR_def)
  have before: "fetch_years ?e [] (empty_contributions, sample_world)
      = Some (Inr (empty_contributions, sample_world))"
    by simp
  have g1: "http_get ?e (server ?wp) (search_url (merged_query 2019) 1)
             = (Inr (page_response 200 ?prs False), 1)"
    by (simp add: sample_env_def scripted_def sample_run_def print_def sample_world_def)
  have m: "get_all_pages ?e (merged_query 2019) ?wp = Some (Inr (?prs, ?w1))"
    unfolding get_all_pages_def using loop_last[OF g1 successful_page, of "[]"]
    by (simp add: items_of_def page_response_def)
  have s1: "server ?w1 = 1"
    by simp
  have t0: "detail_trace ?e 1 ?prs ?rs 3"
    by code_simp
  have t: "detail_trace ?e (server ?w1) ?prs ?rs 3"
    unfolding s1 by (rule t0)
  have p: "\<forall>pr \<in> set ?prs. 2 \<le> length (split_chr CHR ''/'' (urlparse_path ?e (repository_url pr)))"
    by code_simp
  have j: "\<forall>r \<in> set ?rs. status_code r = 200 \<longrightarrow> (\<exists>d. json r = PullData d)"
    by simp
  have g3: "http_get ?e (server ?w2) (search_url (issues_query 2019) 1)
             = (Inr (page_response 200 [] False), 4)"
    by (simp add: sample_env_def scripted_def sample_run_def)
  have i: "get_all_pages ?e (issues_query 2019) ?w2 = Some (Inr ([], ?w3))"
    unfolding get_all_pages_def using loop_last[OF g3 successful_page, of "[]"]
    by (simp add: items_of_def page_response_def)
  have g4: "http_get ?e (server ?w3) (search_url (reviewed_query 2019) 1)
             = (Inr (page_response 200 [] False), 5)"
    by (simp add: sample_env_def scripted_def sample_run_def)
  have r: "get_all_pages ?e (reviewed_query 2019) ?w3 = Some (Inr ([], ?w4))"
    unfolding get_all_pages_def using loop_last[OF g4 successful_page, of "[]"]
    by (simp add: items_of_def page_response_def)
  have g5: "http_get ?e (server ?w4) (search_url (triaged_query 2019) 1)
             = (Inr (page_response 200 [] False), 6)"
    by (simp add: sample_env_def scripted_def sample_run_def)
  have tr: "get_all_pages ?e (triaged_query 2019) ?w4 = Some (Inr ([], ?w5))"
    unfolding get_all_pages_def using loop_last[OF g5 successful_page, of "[]"]
    by (simp add: items_of_def page_response_def)
  have after: "fetch_years ?e [] (?c, ?w5) = Some (Inr (?c, ?w5))"
    by simp
  note run = detail_lookup_skips_failures[OF tok yrs before m t p j i r tr after, THEN conjunct1]
  have k: "concat (map (kept_pull ?e) (zip ?prs ?rs)) = [pull_record ''r'' (sample_pr_data None)]"
    by code_simp
  have sk: "concat (map skipped_line (zip ?prs ?rs))
     = [''Could not fetch details for https://github.com/o/r/pull/1'']"
    by code_simp
  have du: "map (detail_url ?e) ?prs = [pull_url ''o'' ''r'' 1, pull_url ''o'' ''r'' 2]"
    by code_simp
  have c1: "pullRequests (fst (?c, ?w5)) = [pull_record ''r'' (sample_pr_data None)]"
    unfolding k by (simp add: empty_contributions_def)
  have c2: "stdout (snd (?c, ?w5)) =
          [''Fetching contributions for year: '' @ str_nat 2019 @ ''...'',
           ''Could not fetch details for https://github.com/o/r/pull/1'']"
    unfolding sk by (simp add: print_def sample_world_def)
  have c3: "requests (snd (?c, ?w5)) =
          [search_url (merged_query 2019) 1, pull_url ''o'' ''r'' 1, pull_url ''o'' ''r'' 2,
           search_url (issues_query 2019) 1, search_url (reviewed_query 2019) 1,
           search_url (triaged_query 2019) 1]"
    unfolding du by (simp add: print_def sample_world_def)
  show ?thesis
    by (rule exI[of _ "(?c, ?w5)"]) (intro conjI, rule run, rule c1, rule c2, rule c3)
qed

text \<open>
  Claim C9: in all four categories the description of the record is the placeholder when
  the body is null and when it is the empty string, and the body itself otherwise.
\<close>

theorem description_placeholder:
  "placeholder = ''No description provided.'' \<and>
   (body x = None \<or> body x = Some [] \<longrightarrow>
      description (issue_record e x) = placeholder \<and>
      description (reviewed_record e x) = placeholder \<and>
      description (triaged_record e x) = placeholder) \<and>
   (\<forall>s. body x = Some s \<and> s \<noteq> [] \<longrightarrow>
      description (issue_record e x) = s \<and>
      description (reviewed_record e x) = s \<and>
      description (triaged_record e x) = s) \<and>
   (pr_body d = None \<or> pr_body d = Some [] \<longrightarrow>
      description (pull_record repo_name d) = placeholder) \<and>
   (\<forall>s. pr_body d = Some s \<and> s \<noteq> [] \<longrightarrow> description (pull_record repo_name d) = s)"
  by (auto simp: placeholder_def issue_record_def reviewed_record_def triaged_record_def
      pull_record_def or_default_def)

theorem description_placeholder_witness:
  "description (issue_record (sample_env []) (sample_raw 1 None)) = placeholder \<and>
   description (reviewed_record (sample_env []) (sample_raw 1 None)) = placeholder \<and>
   description (triaged_record (sample_env []) (sample_raw 1 None)) = placeholder \<and>
   description (pull_record ''r'' (sample_pr_data (Some []))) = placeholder \<and>
   description (issue_record (sample_env []) (sample_raw 1 (Some ''Adds a test''))) = ''Adds a test''"
proof -
  have n: "body (sample_raw 1 None) = None \<or> body (sample_raw 1 None) = Some []"
    by (simp add: sample_raw_def)
  have e: "pr_body (sample_pr_data (Some [])) = None \<or> pr_body (sample_pr_data (Some [])) = Some []"
    by (simp add: sample_pr_data_def)
  have t: "body (sample_raw 1 (Some ''Adds a test'')) = Some ''Adds a test'' \<and> ''Adds a test'' \<noteq> []"
    by (simp add: sample_raw_def)
  note a = description_placeholder[of "sample_raw 1 None" "sample_env []",
      THEN conjunct2, THEN conjunct1, THEN mp, OF n]
  note b = description_placeholder[of _ _ "sample_pr_data (Some [])" "''r''",
      THEN conjunct2, THEN conjunct2, THEN conjunct2, THEN conjunct1, THEN mp, OF e]
  note c = description_placeholder[of "sample_raw 1 (Some ''Adds a test'')" "sample_env []",
      THEN conjunct2, THEN conjunct2, THEN conjunct1, THEN spec, THEN mp, OF t, THEN conjunct1]
  from a b c show ?thesis
    by (simp only: simp_thms)
qed

end
